(* ===== verification/Prelude.thy ===== *)
theory Prelude
  imports Main "HOL-Library.Word"
begin

text \<open>
  What the components of the proxy share: the C integer types, the ways a C function can fail to
  return (a fatal log, an abort, undefined behaviour), C strings and bytes in network order, and the
  generic facts on lists, words and results that the component proofs use.
\<close>

unbundle bit_operations_syntax

section \<open>Integer types and results\<close>

type_synonym u8 = "8 word"
type_synonym u16 = "16 word"
type_synonym u32 = "32 word"
type_synonym u64 = "64 word"
type_synonym bytes = "u8 list"

text \<open>
  A function of the program either returns or ends the process. \<open>Fatal\<close> is the macro FLOG (log, then
  \<open>exit(1)\<close>), \<open>Aborted\<close> is \<open>abort()\<close>, and \<open>Undef\<close> marks a step whose behaviour C leaves undefined: a
  read or write outside an allocation, a null or dangling pointer. \<open>Hung\<close> is for a caller whose callee
  does not return.
\<close>

datatype fault = Fatal | Aborted | Undef | Hung

type_synonym 'a res = "fault + 'a"

fun bind_res :: "'a res \<Rightarrow> ('a \<Rightarrow> 'b res) \<Rightarrow> 'b res" where
  "bind_res (Inl e) f = Inl e"
| "bind_res (Inr x) f = f x"

text \<open>
  Heap allocation is a parameter of every handler that allocates: \<open>malloc_ok n\<close> says whether a request
  of \<open>n\<close> bytes succeeds during the call, \<open>junk i\<close> is the indeterminate value of byte \<open>i\<close> of fresh
  memory.
\<close>

record mem_env =
  malloc_ok :: "nat \<Rightarrow> bool"
  junk :: "nat \<Rightarrow> u8"

section \<open>Text and bytes\<close>

abbreviation NUL :: char where
  "NUL \<equiv> CHR 0x00"

text \<open>The C string that starts an array: everything before the first NUL.\<close>

definition cstr :: "string \<Rightarrow> string" where
  "cstr s = takeWhile (\<lambda>c. c \<noteq> NUL) s"

text \<open>Two bytes in network order as a 16 bit value, and back (ntohs, htons).\<close>

definition ntohs :: "u8 \<Rightarrow> u8 \<Rightarrow> u16" where
  "ntohs hi lo = word_of_nat (unat hi * 256 + unat lo)"

definition htons :: "u16 \<Rightarrow> bytes" where
  "htons w = [word_of_nat (unat w div 256), word_of_nat (unat w mod 256)]"

text \<open>The last \<open>n\<close> elements of a list: what a log bounded to \<open>n\<close> entries keeps.\<close>

definition lastn :: "nat \<Rightarrow> 'a list \<Rightarrow> 'a list" where
  "lastn n xs = drop (length xs - n) xs"

text \<open>Decimal output of \<open>printf\<close>, plain and padded on the left.\<close>

definition digit_char :: "nat \<Rightarrow> char" where
  "digit_char d = char_of (48 + d)"

fun show_nat :: "nat \<Rightarrow> string" where
  "show_nat n = (if n < 10 then [digit_char n] else show_nat (n div 10) @ [digit_char (n mod 10)])"

declare show_nat.simps [simp del]

definition show_int :: "int \<Rightarrow> string" where
  "show_int i = (if i < 0 then CHR ''-'' # show_nat (nat (- i)) else show_nat (nat i))"

definition pad_left :: "nat \<Rightarrow> char \<Rightarrow> string \<Rightarrow> string" where
  "pad_left n c s = replicate (n - length s) c @ s"

section \<open>Shared lemmas\<close>

named_theorems wordsimps \<open>moving word comparisons to natural numbers\<close>

lemma bind_res_Inr_iff [simp]:
  "bind_res m f = Inr y \<longleftrightarrow> (\<exists>x. m = Inr x \<and> f x = Inr y)"
  by (cases m) auto

lemma cstr_no_nul [simp]: "NUL \<notin> set (cstr s)"
  by (auto simp: cstr_def dest: set_takeWhileD)

lemma cstr_id: "NUL \<notin> set s \<Longrightarrow> cstr s = s"
  by (auto simp: cstr_def takeWhile_eq_all_conv)

lemma cstr_append_nul [simp]: "cstr (s @ [NUL]) = cstr s"
  by (induction s) (auto simp: cstr_def)

lemma length_cstr: "length (cstr s) \<le> length s"
  by (simp add: cstr_def length_takeWhile_le)

lemma lastn_all [simp]: "length xs \<le> n \<Longrightarrow> lastn n xs = xs"
  by (simp add: lastn_def)

lemma length_lastn [simp]: "length (lastn n xs) = min n (length xs)"
  by (simp add: lastn_def)

lemma set_lastn_subset: "set (lastn n xs) \<subseteq> set xs"
  by (simp add: lastn_def set_drop_subset)

lemma lastn_lastn_append: "lastn n (lastn n xs @ ys) = lastn n (xs @ ys)"
proof (cases "length xs \<le> n")
  case True
  then show ?thesis by simp
next
  case False
  then have eq: "lastn n xs @ ys = drop (length xs - n) (xs @ ys)"
    by (simp add: lastn_def)
  show ?thesis
    unfolding eq using False by (simp add: lastn_def algebra_simps)
qed

lemma unat_less_mono [wordsimps]: "(a::'a::len word) < b \<longleftrightarrow> unat a < unat b"
  by (rule word_less_nat_alt)

lemma unat_le_mono [wordsimps]: "(a::'a::len word) \<le> b \<longleftrightarrow> unat a \<le> unat b"
  by (rule word_le_nat_alt)

lemma unat_eq_mono [wordsimps]: "(a::'a::len word) = b \<longleftrightarrow> unat a = unat b"
  by (rule word_unat_eq_iff)

lemma unat_Suc_lt:
  fixes a b :: "'a::len word"
  assumes "a < b"
  shows "unat (a + 1) = Suc (unat a)"
proof -
  have "unat a < unat b" using assms by (simp add: word_less_nat_alt)
  moreover have "unat b < 2 ^ LENGTH('a)" by simp
  ultimately have "Suc (unat a) < 2 ^ LENGTH('a)" by linarith
  then show ?thesis by (simp add: unat_word_ariths)
qed

lemma unat_byte_less [simp]: "unat (b::u8) < 256"
  using unsigned_less [of b, where ?'a = nat] by simp

lemma unat_u16_less [simp]: "unat (w::u16) < 65536"
  using unsigned_less [of w, where ?'a = nat] by simp

lemma unat_u32_less [simp]: "unat (w::u32) < 4294967296"
  using unsigned_less [of w, where ?'a = nat] by simp

lemma unat_u16_ucast_u32 [simp]: "unat (ucast (w::u16) :: u32) = unat w"
proof -
  have "unat w < 2 ^ LENGTH(32)"
    using unat_u16_less [of w] by (simp del: unat_u16_less)
  then show ?thesis
    by (simp add: unsigned_ucast_eq take_bit_nat_eq_self_iff del: unat_u16_less)
qed

lemma unat_ntohs [simp]: "unat (ntohs hi lo) = unat hi * 256 + unat lo"
proof -
  have "unat hi * 256 + unat lo < 65536"
    using unat_byte_less [of hi] unat_byte_less [of lo] by linarith
  then show ?thesis
    by (simp only: ntohs_def unat_of_nat) simp
qed

lemma ntohs_htons: "htons w = [hi, lo] \<Longrightarrow> ntohs hi lo = w"
proof -
  assume "htons w = [hi, lo]"
  then have hi: "hi = word_of_nat (unat w div 256)" and lo: "lo = word_of_nat (unat w mod 256)"
    by (auto simp: htons_def)
  have "unat w div 256 < 256" using unat_u16_less [of w] by linarith
  then have "unat hi = unat w div 256" "unat lo = unat w mod 256"
    by (simp_all add: hi lo unat_of_nat)
  then show ?thesis
    by (simp add: word_unat_eq_iff)
qed

lemma length_htons [simp]: "length (htons w) = 2"
  by (simp add: htons_def)

lemma length_show_nat: "n < 10 ^ k \<Longrightarrow> 0 < k \<Longrightarrow> length (show_nat n) \<le> k"
proof (induction n arbitrary: k rule: show_nat.induct)
  case (1 n)
  show ?case
  proof (cases "n < 10")
    case True
    then show ?thesis using 1(3) by (simp add: show_nat.simps)
  next
    case False
    then obtain j where k: "k = Suc j" "0 < j"
      using 1(2,3) by (cases k; cases "k - 1") auto
    then have "n div 10 < 10 ^ j" using 1(2) by (simp add: less_mult_imp_div_less mult.commute)
    from 1(1) [OF False this k(2)] k False show ?thesis by (subst show_nat.simps) simp
  qed
qed

lemma of_digit_char: "d < 10 \<Longrightarrow> (of_char (digit_char d) :: nat) = 48 + d"
  by (simp add: digit_char_def)

lemma nul_not_digit [simp]: "d < 10 \<Longrightarrow> digit_char d \<noteq> NUL"
proof
  assume "d < 10" "digit_char d = NUL"
  then show False using of_digit_char [of d] by simp
qed

lemma nul_notin_show_nat [simp]: "NUL \<notin> set (show_nat n)"
  by (induction n rule: show_nat.induct) (subst show_nat.simps, auto dest: sym)

text \<open>Evaluating decimal output.\<close>

lemma digit_char_simps:
  "digit_char 0 = CHR ''0''" "digit_char 1 = CHR ''1''" "digit_char (Suc 0) = CHR ''1''"
  "digit_char 2 = CHR ''2''" "digit_char 3 = CHR ''3''" "digit_char 4 = CHR ''4''"
  "digit_char 5 = CHR ''5''" "digit_char 6 = CHR ''6''" "digit_char 7 = CHR ''7''"
  "digit_char 8 = CHR ''8''" "digit_char 9 = CHR ''9''"
  by code_simp+

lemmas show_nat_eval = show_nat.simps digit_char_simps

end
