(* ===== verification/World.thy ===== *)
theory World
  imports Complex_Main Prelude
begin

text \<open>
  The outside of the program as the components see it. A component records the calls it makes on libev
  and on the operating system, oldest first, in a log that is part of its state; results of such calls
  are arguments of the model. Nothing of libev is defined here: \<open>ev_active\<close> states its documented
  contract on a log of calls (a watcher is active from the call that starts it to the call that stops
  it, and a one-shot timer stops when it fires), for use in specifications only.
\<close>

type_synonym ptr = nat
type_synonym ev_tstamp = rat

datatype watcher =
    Stats_timer | Logging_timer | Sigusr2 | Flight_recorder_async
  | Udp_watcher | Accept_watcher | Read_watcher ptr | Timer_watcher ptr
  | Poller_timer | Poller_io nat
  | Curl_timer | Curl_io nat | Reset_timer
  | Sigpipe | Sigint | Sigterm

datatype family = AF_INET | AF_INET6 | AF_other int

definition AF_UNSPEC :: family where
  "AF_UNSPEC = AF_other 0"

text \<open>\<open>Ev_expired\<close> records that libev fired a one-shot timer, before it runs the callback.\<close>

datatype call =
    Ev_start watcher
  | Ev_stop watcher
  | Ev_again watcher
  | Ev_set watcher ev_tstamp ev_tstamp
  | Ev_expired watcher
  | Ev_async_send watcher
  | Close int
  | Usleep nat
  | Send int bytes
  | Sendto int bytes bytes
  | Set_tos int family int

fun ev_upd :: "call \<Rightarrow> (watcher \<Rightarrow> bool) \<Rightarrow> (watcher \<Rightarrow> bool)" where
  "ev_upd (Ev_start w) a = a(w := True)"
| "ev_upd (Ev_stop w) a = a(w := False)"
| "ev_upd (Ev_again w) a = a(w := True)"
| "ev_upd (Ev_expired w) a = a(w := False)"
| "ev_upd _ a = a"

definition ev_active :: "call list \<Rightarrow> watcher \<Rightarrow> bool" where
  "ev_active cs = fold ev_upd cs (\<lambda>_. False)"

lemma ev_active_Nil [simp]: "ev_active [] = (\<lambda>_. False)"
  by (simp add: ev_active_def)

lemma ev_active_append: "ev_active (cs @ ds) = fold ev_upd ds (ev_active cs)"
  by (simp add: ev_active_def)

text \<open>
  A program step that may also loop for ever: \<open>None\<close> is a run that does not return.
\<close>

type_synonym 'a prog = "'a res option"

fun bind_prog :: "'a prog \<Rightarrow> ('a \<Rightarrow> 'b prog) \<Rightarrow> 'b prog" where
  "bind_prog None f = None"
| "bind_prog (Some (Inl e)) f = Some (Inl e)"
| "bind_prog (Some (Inr x)) f = f x"

abbreviation returns :: "'a prog \<Rightarrow> 'a \<Rightarrow> bool" where
  "returns m x \<equiv> m = Some (Inr x)"

lemma bind_prog_returns [simp]:
  "returns (bind_prog m f) y \<longleftrightarrow> (\<exists>x. returns m x \<and> returns (f x) y)"
proof (cases m)
  case (Some r)
  then show ?thesis by (cases r) auto
qed simp

text \<open>The same for a caller that has to return before anything else happens.\<close>

definition returned :: "'a prog \<Rightarrow> 'a res" where
  "returned m = (case m of None \<Rightarrow> Inl Hung | Some r \<Rightarrow> r)"

lemma returned_Inr [simp]: "returned m = Inr x \<longleftrightarrow> returns m x"
  by (simp add: returned_def split: option.split)

text \<open>Results of the socket calls that the servers make.\<close>

datatype errno = ECONNRESET | EAGAIN | EWOULDBLOCK | Eother

text \<open>
  States that a transition system reaches from its initial ones, and the principle that an invariant of
  the steps holds in all of them.
\<close>

definition reach :: "('s \<Rightarrow> bool) \<Rightarrow> ('s \<Rightarrow> 's \<Rightarrow> bool) \<Rightarrow> 's \<Rightarrow> bool" where
  "reach init step s \<longleftrightarrow> (\<exists>s0. init s0 \<and> step\<^sup>*\<^sup>* s0 s)"

lemma reach_init: "init s \<Longrightarrow> reach init step s"
  by (auto simp: reach_def)

lemma reach_step: "reach init step s \<Longrightarrow> step s t \<Longrightarrow> reach init step t"
  unfolding reach_def by (meson rtranclp.rtrancl_into_rtrancl)

locale invariant_system =
  fixes init :: "'s \<Rightarrow> bool"
    and step :: "'s \<Rightarrow> 's \<Rightarrow> bool"
    and inv :: "'s \<Rightarrow> bool"
  assumes init_inv: "init s \<Longrightarrow> inv s"
    and step_inv: "inv s \<Longrightarrow> step s t \<Longrightarrow> inv t"
begin

lemma steps_inv:
  assumes "step\<^sup>*\<^sup>* s t" and "inv s"
  shows "inv t"
  using assms by (induction rule: rtranclp_induct) (auto intro: step_inv)

lemma reach_inv: "reach init step s \<Longrightarrow> inv s"
  using steps_inv init_inv by (auto simp: reach_def)

end

end
