(* ===== verification/Dns_Server.thy ===== *)
theory Dns_Server
  imports World
begin

text \<open>
  The UDP side of the DNS server, src/src/dns_server.c and the constants and callback type of
  dns_server.h that both servers share. The DNS message library c-ares is a parameter: the record
  \<open>ares\<close> holds the functions that the code calls, over an arbitrary type of parsed messages, and
  \<open>ares_ok\<close> states what the code relies on. The loops over records follow the code, including that a
  failing deletion is retried for ever.
\<close>

section \<open>Constants and types\<close>

definition DNS_HEADER_LENGTH :: nat where
  "DNS_HEADER_LENGTH = 12"

definition DNS_SIZE_LIMIT :: nat where
  "DNS_SIZE_LIMIT = 512"

definition DNS_REQUEST_BUFFER_SIZE :: nat where
  "DNS_REQUEST_BUFFER_SIZE = 4096"

text \<open>The request callback: transport flag, remote address, request, and the state it works on.\<close>

type_synonym 's req_cb = "bool \<Rightarrow> bytes \<Rightarrow> bytes \<Rightarrow> 's \<Rightarrow> 's res"

record dns_server =
  u_sock :: int
  u_addrlen :: nat
  u_calls :: "call list"


text \<open>
  The functions of c-ares that the code calls. Sections are answer, authority, additional; a deletion
  gives its success and the record afterwards.
\<close>

datatype rr_section = ANSWER | AUTHORITY | ADDITIONAL

record 'r ares =
  dns_parse :: "bytes \<Rightarrow> 'r option"
  rr_cnt :: "rr_section \<Rightarrow> 'r \<Rightarrow> nat"
  rr_is_opt :: "rr_section \<Rightarrow> nat \<Rightarrow> 'r \<Rightarrow> bool"
  rr_opt_udp_size :: "rr_section \<Rightarrow> nat \<Rightarrow> 'r \<Rightarrow> u16"
  rr_del :: "rr_section \<Rightarrow> nat \<Rightarrow> 'r \<Rightarrow> bool \<times> 'r"
  dns_write :: "'r \<Rightarrow> bytes option"

section \<open>Listening and receiving\<close>

definition get_listen_sock :: "int \<Rightarrow> family \<Rightarrow> int \<Rightarrow> int res" where
  "get_listen_sock sock fam bound =
     (if sock < 0 then Inl Fatal
      else if fam \<noteq> AF_INET \<and> fam \<noteq> AF_INET6 then Inl Fatal
      else if bound < 0 then Inl Fatal
      else Inr sock)"

text \<open>
  What \<open>recvfrom\<close> with MSG_TRUNC gives back: an error, or the datagram with its sender, of which the
  buffer holds at most 4096 bytes while the length is the real one.
\<close>

datatype udp_recv = Recvfrom_error | Datagram bytes bytes

definition watcher_cb :: "mem_env \<Rightarrow> 's req_cb \<Rightarrow> udp_recv \<Rightarrow> 's \<Rightarrow> 's res" where
  "watcher_cb me cb r s =
     (case r of
        Recvfrom_error \<Rightarrow> Inr s
      | Datagram addr data \<Rightarrow>
          (let len = length data; tmp_buf = take DNS_REQUEST_BUFFER_SIZE data
           in if len > DNS_REQUEST_BUFFER_SIZE then Inr s
              else if len < DNS_HEADER_LENGTH then Inr s
              else if \<not> malloc_ok me len then Inl Fatal
              else cb False addr (take len tmp_buf) s))"

definition dns_server_init :: "int \<Rightarrow> family \<Rightarrow> int \<Rightarrow> nat \<Rightarrow> dns_server res" where
  "dns_server_init sock fam bound addrlen =
     bind_res (get_listen_sock sock fam bound)
       (\<lambda>fd. Inr \<lparr>u_sock = fd, u_addrlen = addrlen, u_calls = [Ev_start Udp_watcher]\<rparr>)"

section \<open>The size a requester accepts\<close>

text \<open>The loop over the additional records: the size in the first OPT record, 0 if there is none.\<close>

fun opt_loop :: "'r ares \<Rightarrow> 'r \<Rightarrow> nat list \<Rightarrow> u16" where
  "opt_loop a r [] = 0"
| "opt_loop a r (i # ks) =
     (if rr_is_opt a ADDITIONAL i r then rr_opt_udp_size a ADDITIONAL i r else opt_loop a r ks)"

definition get_edns_udp_size :: "'r ares \<Rightarrow> bytes \<Rightarrow> u16" where
  "get_edns_udp_size a dns_req =
     (case dns_parse a dns_req of
        None \<Rightarrow> word_of_nat DNS_SIZE_LIMIT
      | Some r \<Rightarrow>
          (let udp_size = opt_loop a r [0..<rr_cnt a ADDITIONAL r]
           in if unat udp_size < DNS_SIZE_LIMIT then word_of_nat DNS_SIZE_LIMIT else udp_size))"

section \<open>Truncation\<close>

text \<open>The statement \<open>buf[2] |= 0x02\<close>.\<close>

definition set_tc :: "bytes \<Rightarrow> bytes" where
  "set_tc buf = buf[2 := buf ! 2 OR 2]"

text \<open>The loop that empties a section; it does not look at the result of a deletion.\<close>

partial_function (option) clear_section :: "'r ares \<Rightarrow> rr_section \<Rightarrow> 'r \<Rightarrow> 'r option" where
  "clear_section a sec r =
     (if rr_cnt a sec r > 0 then clear_section a sec (snd (rr_del a sec 0 r)) else Some r)"

text \<open>The inner loop that deletes answers from the end; it stops at the first failure.\<close>

fun drop_answers :: "'r ares \<Rightarrow> nat \<Rightarrow> nat \<Rightarrow> 'r \<Rightarrow> 'r" where
  "drop_answers a 0 keep r = r"
| "drop_answers a (Suc answers) keep r =
     (if Suc answers > keep
      then (case rr_del a ANSWER answers r of
              (False, r') \<Rightarrow> r'
            | (True, r') \<Rightarrow> drop_answers a answers keep r')
      else r)"

text \<open>The guarded loop; \<open>left\<close> is the number of rounds that remain, the result is \<open>new_resp\<close>.\<close>

fun shrink_loop :: "'r ares \<Rightarrow> nat \<Rightarrow> nat \<Rightarrow> 'r \<Rightarrow> nat \<Rightarrow> nat \<Rightarrow> bytes option" where
  "shrink_loop a size_limit 0 r answers keep = None"
| "shrink_loop a size_limit (Suc left) r answers keep =
     (case dns_write a r of
        None \<Rightarrow> None
      | Some new_resp \<Rightarrow>
          if length new_resp < size_limit \<or> answers = 0 then Some new_resp
          else (let r' = drop_answers a answers keep r
                in shrink_loop a size_limit left r' (rr_cnt a ANSWER r') (keep div 2)))"

definition truncate_dns_response :: "'r ares \<Rightarrow> bytes \<Rightarrow> u16 \<Rightarrow> bytes option" where
  "truncate_dns_response a buf size_limit =
     (let old_size = length buf; buf1 = set_tc buf
      in case dns_parse a buf1 of
           None \<Rightarrow> Some buf1
         | Some r \<Rightarrow>
             Option.bind (clear_section a ADDITIONAL r) (\<lambda>r1.
             Option.bind (clear_section a AUTHORITY r1) (\<lambda>r2.
               let answers = rr_cnt a ANSWER r2;
                   est = ((unat size_limit - DNS_HEADER_LENGTH) * answers) div old_size;
                   keep = (if est > 0 then est else 1)
               in case shrink_loop a (unat size_limit) 255 r2 answers keep of
                    None \<Rightarrow> Some buf1
                  | Some new_resp \<Rightarrow>
                      Some (if length new_resp < old_size then set_tc new_resp else buf1))))"

section \<open>Responding, stopping\<close>

definition dns_server_respond :: "'r ares \<Rightarrow> bytes \<Rightarrow> bytes \<Rightarrow> bytes \<Rightarrow> dns_server \<Rightarrow> dns_server option" where
  "dns_server_respond a raddr dns_req dns_resp d =
     (if length dns_resp < DNS_HEADER_LENGTH then Some d
      else Option.bind
             (if length dns_resp > DNS_SIZE_LIMIT
              then (let udp_size = get_edns_udp_size a dns_req
                    in if length dns_resp > unat udp_size then truncate_dns_response a dns_resp udp_size
                       else Some dns_resp)
              else Some dns_resp)
             (\<lambda>resp. Some (d\<lparr>u_calls := u_calls d @ [Sendto (u_sock d) (take (u_addrlen d) raddr) resp]\<rparr>)))"

definition dns_server_stop :: "dns_server \<Rightarrow> dns_server" where
  "dns_server_stop d = d\<lparr>u_calls := u_calls d @ [Ev_stop Udp_watcher]\<rparr>"

definition dns_server_cleanup :: "dns_server \<Rightarrow> dns_server" where
  "dns_server_cleanup d = d\<lparr>u_calls := u_calls d @ [Close (u_sock d)]\<rparr>"

section \<open>What the code relies on\<close>

text \<open>
  The documented behaviour of c-ares: deleting a record that exists succeeds and removes one record of
  that section only, counts are of type \<open>size_t\<close>, and a written message has a header.
\<close>

definition ares_ok :: "'r ares \<Rightarrow> bool" where
  "ares_ok a \<longleftrightarrow>
     (\<forall>sec i r. i < rr_cnt a sec r \<longrightarrow> fst (rr_del a sec i r) \<and>
        (\<forall>sec'. rr_cnt a sec' (snd (rr_del a sec i r)) = (if sec' = sec then rr_cnt a sec r - 1 else rr_cnt a sec' r))) \<and>
     (\<forall>sec r. rr_cnt a sec r < 2 ^ 64) \<and>
     (\<forall>r w. dns_write a r = Some w \<longrightarrow> DNS_HEADER_LENGTH \<le> length w)"

lemma ares_okD:
  assumes "ares_ok a"
  shows "i < rr_cnt a sec r \<Longrightarrow> fst (rr_del a sec i r)"
    and "i < rr_cnt a sec r \<Longrightarrow> rr_cnt a sec (snd (rr_del a sec i r)) = rr_cnt a sec r - 1"
    and "i < rr_cnt a sec r \<Longrightarrow> sec' \<noteq> sec \<Longrightarrow> rr_cnt a sec' (snd (rr_del a sec i r)) = rr_cnt a sec' r"
    and "rr_cnt a sec r < 2 ^ 64"
    and "dns_write a r = Some w \<Longrightarrow> DNS_HEADER_LENGTH \<le> length w"
  using assms unfolding ares_ok_def by (simp_all split: if_splits)

section \<open>Correctness\<close>

lemma clear_section_correct:
  assumes "ares_ok a"
  shows "\<exists>r'. clear_section a sec r = Some r' \<and> rr_cnt a sec r' = 0 \<and>
           (\<forall>sec'. sec' \<noteq> sec \<longrightarrow> rr_cnt a sec' r' = rr_cnt a sec' r)"
proof (induction "rr_cnt a sec r" arbitrary: r)
  case 0
  then show ?case by (simp add: clear_section.simps)
next
  case (Suc n)
  let ?r = "snd (rr_del a sec 0 r)"
  have pos: "0 < rr_cnt a sec r" using Suc.hyps(2) by simp
  have "n = rr_cnt a sec ?r" using ares_okD(2) [OF assms pos] Suc.hyps(2) by simp
  from Suc.hyps(1) [OF this] obtain r' where r': "clear_section a sec ?r = Some r'" "rr_cnt a sec r' = 0"
      "\<forall>sec'. sec' \<noteq> sec \<longrightarrow> rr_cnt a sec' r' = rr_cnt a sec' ?r" by blast
  have "clear_section a sec r = Some r'" using pos r'(1) by (subst clear_section.simps) simp
  with r' ares_okD(3) [OF assms pos] show ?case by auto
qed

lemma drop_answers_correct:
  assumes "ares_ok a"
  shows "rr_cnt a ANSWER r = answers \<Longrightarrow>
     rr_cnt a ANSWER (drop_answers a answers keep r) = min answers keep \<and>
     (\<forall>sec. sec \<noteq> ANSWER \<longrightarrow> rr_cnt a sec (drop_answers a answers keep r) = rr_cnt a sec r)"
proof (induction answers arbitrary: r)
  case (Suc n)
  have lt: "n < rr_cnt a ANSWER r" using Suc.prems by simp
  obtain ok r' where r': "rr_del a ANSWER n r = (ok, r')" by fastforce
  then have "ok" "rr_cnt a ANSWER r' = n" "\<forall>sec. sec \<noteq> ANSWER \<longrightarrow> rr_cnt a sec r' = rr_cnt a sec r"
    using ares_okD(1-3) [OF assms lt] Suc.prems by auto
  with Suc.IH [of r'] Suc.prems r' show ?case by auto
qed simp

text \<open>The records that existing entries can be deleted from to get \<open>r\<close>.\<close>

inductive trimmed :: "'r ares \<Rightarrow> 'r \<Rightarrow> 'r \<Rightarrow> bool" for a where
  whole: "trimmed a r r"
| delete: "trimmed a r0 r \<Longrightarrow> i < rr_cnt a sec r \<Longrightarrow> trimmed a r0 (snd (rr_del a sec i r))"

lemma trimmed_trans: "trimmed a r1 r2 \<Longrightarrow> trimmed a r0 r1 \<Longrightarrow> trimmed a r0 r2"
  by (induction rule: trimmed.induct) (auto intro: trimmed.delete)

lemma trimmed_cnt:
  assumes "trimmed a r0 r" "ares_ok a"
  shows "rr_cnt a sec r \<le> rr_cnt a sec r0"
  using assms(1)
proof (induction rule: trimmed.induct)
  case (delete r0 r i sec')
  then show ?case using ares_okD(2,3) [OF assms(2) delete(2)] by (cases "sec = sec'") auto
qed simp

lemma clear_section_trimmed: "ares_ok a \<Longrightarrow> clear_section a sec r = Some r' \<Longrightarrow> trimmed a r r'"
proof (induction "rr_cnt a sec r" arbitrary: r)
  case 0
  then show ?case by (simp add: clear_section.simps trimmed.whole)
next
  case (Suc n)
  let ?r = "snd (rr_del a sec 0 r)"
  have pos: "0 < rr_cnt a sec r" using Suc.hyps(2) by simp
  then have "n = rr_cnt a sec ?r" "clear_section a sec ?r = Some r'"
    using ares_okD(2) [OF Suc.prems(1) pos] Suc.hyps(2) Suc.prems(2) by (simp_all add: clear_section.simps [of a sec r])
  from Suc.hyps(1) [OF this(1) Suc.prems(1) this(2)] show ?case
    by (rule trimmed_trans) (rule trimmed.delete [OF trimmed.whole pos])
qed

lemma drop_answers_trimmed:
  "ares_ok a \<Longrightarrow> rr_cnt a ANSWER r = answers \<Longrightarrow> trimmed a r (drop_answers a answers keep r)"
proof (induction answers arbitrary: r)
  case (Suc n)
  have lt: "n < rr_cnt a ANSWER r" using Suc.prems(2) by simp
  obtain ok r' where r': "rr_del a ANSWER n r = (ok, r')" by fastforce
  then have "ok" "rr_cnt a ANSWER r' = n" using ares_okD(1,2) [OF Suc.prems(1) lt] Suc.prems(2) by auto
  moreover have "trimmed a r r'" using trimmed.delete [OF trimmed.whole lt] r' by simp
  ultimately show ?case using trimmed_trans [OF Suc.IH [OF Suc.prems(1)], of r'] r' by (auto intro: trimmed.whole)
qed (simp add: trimmed.whole)

text \<open>
  What is tried instead of the parsed response \<open>r0\<close>: existing records of it are deleted, among them all of
  the additional and authority sections.
\<close>

definition cut_down :: "'r ares \<Rightarrow> 'r \<Rightarrow> 'r \<Rightarrow> bool" where
  "cut_down a r0 r \<longleftrightarrow> trimmed a r0 r \<and> rr_cnt a ADDITIONAL r = 0 \<and> rr_cnt a AUTHORITY r = 0"

text \<open>A message that may replace the response: cut from it, and small or without answers.\<close>

definition shrunk :: "'r ares \<Rightarrow> nat \<Rightarrow> 'r \<Rightarrow> bytes \<Rightarrow> bool" where
  "shrunk a size_limit r0 w \<longleftrightarrow>
     (\<exists>r. cut_down a r0 r \<and> dns_write a r = Some w \<and> (length w < size_limit \<or> rr_cnt a ANSWER r = 0))"

lemma cut_down_answers:
  assumes "ares_ok a" "cut_down a r0 r"
  shows "cut_down a r0 (drop_answers a (rr_cnt a ANSWER r) keep r)"
  using assms drop_answers_correct [OF assms(1) refl, of r keep] trimmed_trans [OF drop_answers_trimmed [OF assms(1) refl]]
  by (simp add: cut_down_def)

text \<open>The loop runs out of rounds for no record count that fits in 64 bits; it ends early only if writing fails.\<close>

lemma shrink_loop_correct:
  assumes "ares_ok a"
  shows "keep < 2 ^ k \<Longrightarrow> k + 2 \<le> left \<Longrightarrow> cut_down a r0 r \<Longrightarrow>
     (case shrink_loop a size_limit left r (rr_cnt a ANSWER r) keep of
        None \<Rightarrow> \<exists>r'. cut_down a r0 r' \<and> dns_write a r' = None
      | Some w \<Rightarrow> shrunk a size_limit r0 w)"
proof (induction k arbitrary: keep left r)
  case 0
  then obtain left' where left: "left = Suc (Suc left')" by (metis add_2_eq_Suc' le_Suc_ex add_Suc add_0)
  let ?r = "drop_answers a (rr_cnt a ANSWER r) keep r"
  have "rr_cnt a ANSWER ?r = 0" "cut_down a r0 ?r"
    using drop_answers_correct [OF assms refl, of r keep] cut_down_answers [OF assms 0(3), of keep] 0(1) by simp_all
  with 0 show ?case by (auto simp: left shrunk_def Let_def split: option.split)
next
  case (Suc k)
  then obtain left' where left: "left = Suc left'" "k + 2 \<le> left'" by (cases left) auto
  have "keep div 2 < 2 ^ k" using Suc.prems(1) by (simp add: less_mult_imp_div_less mult.commute)
  from Suc.IH [OF this left(2) cut_down_answers [OF assms Suc.prems(3), of keep]] Suc.prems(3) show ?case
    by (auto simp: left(1) shrunk_def Let_def split: option.split)
qed

lemma length_set_tc [simp]: "length (set_tc buf) = length buf"
  by (simp add: set_tc_def)

lemma set_tc_bit: "2 < length buf \<Longrightarrow> bit (set_tc buf ! 2) 1"
  by (simp add: set_tc_def bit_or_iff)

text \<open>The message that goes out for a response \<open>buf\<close> that is too large.\<close>

definition truncated :: "'r ares \<Rightarrow> nat \<Rightarrow> bytes \<Rightarrow> bytes \<Rightarrow> bool" where
  "truncated a size_limit buf buf' \<longleftrightarrow>
     (case dns_parse a (set_tc buf) of
        None \<Rightarrow> buf' = set_tc buf
      | Some r0 \<Rightarrow>
          (\<exists>r. cut_down a r0 r \<and> dns_write a r = None) \<and> buf' = set_tc buf \<or>
          (\<exists>w. shrunk a size_limit r0 w \<and> buf' = (if length w < length buf then set_tc w else set_tc buf)))"

lemma truncate_correct:
  assumes "ares_ok a" "unat size_limit < length buf"
  shows "\<exists>buf'. truncate_dns_response a buf size_limit = Some buf' \<and> truncated a (unat size_limit) buf buf'"
proof (cases "dns_parse a (set_tc buf)")
  case None
  then show ?thesis by (simp add: truncate_dns_response_def truncated_def Let_def)
next
  case (Some r)
  obtain r1 where r1: "clear_section a ADDITIONAL r = Some r1" "rr_cnt a ADDITIONAL r1 = 0"
    using clear_section_correct [OF assms(1)] by blast
  obtain r2 where r2: "clear_section a AUTHORITY r1 = Some r2" "rr_cnt a AUTHORITY r2 = 0" "rr_cnt a ADDITIONAL r2 = 0"
    using clear_section_correct [OF assms(1), of AUTHORITY r1] r1(2) by auto
  let ?n = "rr_cnt a ANSWER r2"
  let ?est = "((unat size_limit - DNS_HEADER_LENGTH) * ?n) div length buf"
  have "(unat size_limit - DNS_HEADER_LENGTH) * ?n \<le> length buf * ?n"
    using assms(2) by (intro mult_le_mono1) linarith
  then have "?est \<le> length buf * ?n div length buf" by (rule div_le_mono)
  also have "\<dots> = ?n" using assms(2) by (intro nonzero_mult_div_cancel_left) linarith
  finally have "?est < 2 ^ 64" using ares_okD(4) [OF assms(1), of ANSWER r2] by (rule le_less_trans)
  then have est: "(if ?est > 0 then ?est else 1) < 2 ^ 64" by simp
  have "cut_down a r r2"
    using trimmed_trans [OF clear_section_trimmed [OF assms(1) r2(1)] clear_section_trimmed [OF assms(1) r1(1)]] r2(2,3)
    by (simp add: cut_down_def)
  from shrink_loop_correct [OF assms(1) est _ this, of 255 "unat size_limit"]
  have "case shrink_loop a (unat size_limit) 255 r2 ?n (if ?est > 0 then ?est else 1) of
      None \<Rightarrow> \<exists>r'. cut_down a r r' \<and> dns_write a r' = None | Some w \<Rightarrow> shrunk a (unat size_limit) r w" by simp
  then show ?thesis
    by (cases "shrink_loop a (unat size_limit) 255 r2 ?n (if ?est > 0 then ?est else 1)")
      (auto simp: truncate_dns_response_def truncated_def Let_def Some r1 r2)
qed

lemma truncated_flagged:
  assumes "truncated a n buf buf'" "ares_ok a" "DNS_HEADER_LENGTH \<le> length buf"
  shows "bit (buf' ! 2) 1 \<and> DNS_HEADER_LENGTH \<le> length buf' \<and> length buf' \<le> length buf"
proof -
  have tc: "DNS_HEADER_LENGTH \<le> length w \<Longrightarrow> bit (set_tc w ! 2) 1" for w
    by (rule set_tc_bit) (simp add: DNS_HEADER_LENGTH_def)
  have "DNS_HEADER_LENGTH \<le> length w" if "shrunk a n r w" for r w
    using that ares_okD(5) [OF assms(2)] by (auto simp: shrunk_def)
  then consider "buf' = set_tc buf" | w where "buf' = set_tc w" "length w < length buf" "DNS_HEADER_LENGTH \<le> length w"
    using assms(1) by (auto simp: truncated_def split: option.split_asm if_split_asm)
  then show ?thesis by cases (use assms(3) tc in simp_all)
qed

section \<open>Properties\<close>

text \<open>
  C10. Answering over UDP. With c-ares behaving as documented, every response with at least a header leads to
  exactly one datagram to the requester. A response within the size the requester accepts goes out
  unchanged. A larger one goes out with the truncation flag set and no longer than it was. It is written
  again from the parsed response, with all authority and additional records and some of the answers
  deleted, to a message that is below the limit or has no answers left; the original with the flag is
  sent instead if it does not parse, if a cut record cannot be written, or if the new message is not smaller.
\<close>

theorem udp_respond_fits_or_truncates:
  assumes "ares_ok a" "DNS_HEADER_LENGTH \<le> length resp"
  shows "\<exists>resp'. dns_server_respond a raddr req resp d =
       Some (d\<lparr>u_calls := u_calls d @ [Sendto (u_sock d) (take (u_addrlen d) raddr) resp']\<rparr>) \<and>
     DNS_HEADER_LENGTH \<le> length resp' \<and> length resp' \<le> length resp \<and>
     (if length resp \<le> unat (get_edns_udp_size a req) then resp' = resp
      else bit (resp' ! 2) 1 \<and>
        (case dns_parse a (set_tc resp) of
           None \<Rightarrow> resp' = set_tc resp
         | Some r0 \<Rightarrow>
             (\<exists>r. cut_down a r0 r \<and> dns_write a r = None) \<and> resp' = set_tc resp \<or>
             (\<exists>w. shrunk a (unat (get_edns_udp_size a req)) r0 w \<and>
                  resp' = (if length w < length resp then set_tc w else set_tc resp))))"
proof (cases "length resp \<le> unat (get_edns_udp_size a req)")
  case True
  then show ?thesis using assms(2) by (auto simp: dns_server_respond_def Let_def)
next
  case False
  have "DNS_SIZE_LIMIT \<le> unat (get_edns_udp_size a req)"
    by (auto simp: get_edns_udp_size_def DNS_SIZE_LIMIT_def Let_def unat_of_nat split: option.split)
  with False have big: "DNS_SIZE_LIMIT < length resp" by simp
  from False obtain resp' where r: "truncate_dns_response a resp (get_edns_udp_size a req) = Some resp'"
      "truncated a (unat (get_edns_udp_size a req)) resp resp'"
    using truncate_correct [OF assms(1)] by (metis linorder_not_le)
  have "dns_server_respond a raddr req resp d =
      Some (d\<lparr>u_calls := u_calls d @ [Sendto (u_sock d) (take (u_addrlen d) raddr) resp']\<rparr>)"
    using False big assms(2) r(1) by (simp add: dns_server_respond_def Let_def)
  with False r(2) truncated_flagged [OF r(2) assms] show ?thesis 
    by (intro exI [of _ resp'] conjI) (simp_all add: truncated_def)
qed

text \<open>
  C27. The size limit for a requester is what RFC 6891 asks for: the size in the first OPT record of its
  request, but never below 512, and 512 when there is no such record or the request does not parse.
\<close>

theorem edns_size_at_least_512:
  "get_edns_udp_size a req =
     (case dns_parse a req of
        None \<Rightarrow> 512
      | Some r \<Rightarrow>
          (case find (\<lambda>i. rr_is_opt a ADDITIONAL i r) [0..<rr_cnt a ADDITIONAL r] of
             None \<Rightarrow> 512
           | Some i \<Rightarrow> max 512 (rr_opt_udp_size a ADDITIONAL i r)))"
proof -
  have "opt_loop a r ks = (case find (\<lambda>i. rr_is_opt a ADDITIONAL i r) ks of
      None \<Rightarrow> 0 | Some i \<Rightarrow> rr_opt_udp_size a ADDITIONAL i r)" for r ks
    by (induction ks) auto
  moreover have "unat w < 512 \<Longrightarrow> max 512 w = 512" "\<not> unat w < 512 \<Longrightarrow> max 512 w = w" for w :: u16
    by (simp_all add: max_def wordsimps)
  ultimately show ?thesis
    by (simp add: get_edns_udp_size_def DNS_SIZE_LIMIT_def Let_def split: option.split)
qed

lemma clear_section_stuck:
  assumes "0 < rr_cnt a sec r" "\<And>r. snd (rr_del a sec 0 r) = r"
  shows "clear_section a sec r = None"
proof (rule ccontr)
  assume "clear_section a sec r \<noteq> None"
  then obtain r' where r': "clear_section a sec r = Some r'" by auto
  have "\<not> (0 < rr_cnt a sec r \<and> (\<forall>r. snd (rr_del a sec 0 r) = r))"
    by (rule clear_section.raw_induct [where P = "\<lambda>a sec r r'.
        \<not> (0 < rr_cnt a sec r \<and> (\<forall>r. snd (rr_del a sec 0 r) = r))", OF _ r'], goal_cases)
      (auto split: if_splits, metis less_irrefl)
  with assms show False by blast
qed

text \<open>
  C37. Truncation relies on deletions succeeding. The loops that remove the additional and authority records
  log a failed deletion and try again without end (the loop over answers stops): if c-ares cannot delete
  the first additional record of a parsed response, \<open>truncate_dns_response\<close> never returns.
\<close>

theorem truncate_hangs_on_failed_delete:
  assumes "dns_parse a (set_tc buf) = Some r" "0 < rr_cnt a ADDITIONAL r"
    and "\<And>r. rr_del a ADDITIONAL 0 r = (False, r)"
  shows "truncate_dns_response a buf size_limit = None"
  using clear_section_stuck [of a ADDITIONAL r] assms by (simp add: truncate_dns_response_def Let_def)

section \<open>Witnesses\<close>

text \<open>
  A message library whose records are the numbers of answers, authority and additional records; each
  request parses to one OPT record of size 1232, each response to three answers.
\<close>

fun example_cnt :: "rr_section \<Rightarrow> nat \<times> nat \<times> nat \<Rightarrow> nat" where
  "example_cnt ANSWER (x, y, z) = x mod 2 ^ 64"
| "example_cnt AUTHORITY (x, y, z) = y mod 2 ^ 64"
| "example_cnt ADDITIONAL (x, y, z) = z mod 2 ^ 64"

fun example_del :: "rr_section \<Rightarrow> nat \<Rightarrow> nat \<times> nat \<times> nat \<Rightarrow> bool \<times> nat \<times> nat \<times> nat" where
  "example_del ANSWER i (x, y, z) = (True, x - 1, y, z)"
| "example_del AUTHORITY i (x, y, z) = (True, x, y - 1, z)"
| "example_del ADDITIONAL i (x, y, z) = (True, x, y, z - 1)"

definition example_ares :: "(nat \<times> nat \<times> nat) ares" where
  "example_ares = \<lparr>dns_parse = \<lambda>b. Some (if length b < 100 then (0, 0, 1) else (3, 1, 1)),
     rr_cnt = example_cnt, rr_is_opt = \<lambda>sec i r. True, rr_opt_udp_size = \<lambda>sec i r. 1232,
     rr_del = example_del,
     dns_write = \<lambda>(x, y, z). Some (replicate (12 + 500 * x + 300 * y + 40 * z) 0)\<rparr>"

lemma example_ares_ok: "ares_ok example_ares"
proof -
  have dec: "(n - 1) mod m = n mod m - 1" if "0 < n mod m" for n m :: nat
    using that by (metis Suc_pred' mod_Suc mod_0 neq0_conv diff_Suc_1 Suc_diff_1 nat.discI)
  have del: "fst (example_del sec i r) \<and> (\<forall>sec'. example_cnt sec' (snd (example_del sec i r)) =
      (if sec' = sec then example_cnt sec r - 1 else example_cnt sec' r))" if "i < example_cnt sec r" for sec i r
  proof -
    obtain x y z where r: "r = (x, y, z)" by (cases r)
    show ?thesis
      unfolding r using that [unfolded r] dec
      by (cases sec; intro conjI allI; simp; rename_tac sec'; case_tac sec'; simp)
  qed
  have "example_cnt sec r < 2 ^ 64" for sec r by (cases "(sec, r)" rule: example_cnt.cases) simp_all
  with del show ?thesis by (auto simp: ares_ok_def example_ares_def DNS_HEADER_LENGTH_def)
qed

definition example_udp :: dns_server where
  "example_udp = \<lparr>u_sock = 5, u_addrlen = 16, u_calls = [Ev_start Udp_watcher]\<rparr>"

theorem udp_respond_fits_or_truncates_witness:
  "\<exists>resp' w. dns_server_respond example_ares [1, 2] (replicate 30 0) (replicate 1852 0) example_udp =
       Some (example_udp\<lparr>u_calls := [Ev_start Udp_watcher, Sendto 5 [1, 2] resp']\<rparr>) \<and> bit (resp' ! 2) 1 \<and>
     shrunk example_ares 1232 (3, 1, 1) w \<and> length resp' \<le> length w"
proof -
  have e: "get_edns_udp_size example_ares (replicate 30 0) = 1232"
    by (simp add: get_edns_udp_size_def example_ares_def DNS_SIZE_LIMIT_def)
  have p: "dns_parse example_ares (set_tc (replicate 1852 0)) = Some (3, 1, 1)" by (simp add: example_ares_def)
  have w: "dns_write example_ares r = None \<longleftrightarrow> False" for r by (cases r) (simp add: example_ares_def)
  obtain resp' w where r: "dns_server_respond example_ares [1, 2] (replicate 30 0) (replicate 1852 0) example_udp =
       Some (example_udp\<lparr>u_calls := u_calls example_udp @ [Sendto 5 (take 16 [1, 2]) resp']\<rparr>)" "bit (resp' ! 2) 1"
      "shrunk example_ares 1232 (3, 1, 1) w" "resp' = (if length w < 1852 then set_tc w else set_tc (replicate 1852 0))"
    using udp_respond_fits_or_truncates [OF example_ares_ok, of "replicate 1852 0" "[1, 2]" "replicate 30 0" example_udp]
    unfolding e p w by (auto simp: DNS_HEADER_LENGTH_def example_udp_def)
  then have "length resp' \<le> length w" by simp
  with r show ?thesis by (intro exI [of _ resp'] exI [of _ w]) (simp add: example_udp_def)
qed

theorem truncate_hangs_on_failed_delete_witness:
  "truncate_dns_response (example_ares\<lparr>rr_del := \<lambda>sec i r. (False, r)\<rparr>) (replicate 600 0) 512 = None"
  by (rule truncate_hangs_on_failed_delete [where r = "(3, 1, 1)"]) (simp_all add: example_ares_def)

end
