(* ===== verification/Dns_Server_Tcp.thy ===== *)
theory Dns_Server_Tcp
  imports Dns_Server
begin

text \<open>
  The TCP side of the DNS server, src/src/dns_server_tcp.c. Clients live on an explicit heap and are
  chained through their \<open>next\<close> pointers, as in the C code, so that unlinking and freeing a client are
  pointer updates and a dangling pointer shows. Integer fields keep their C width. The results of
  \<open>recv\<close>, \<open>send\<close> and \<open>accept\<close> and of the allocator are arguments; the calls on libev and on sockets are
  logged. The callback that the server was created with is an argument over an arbitrary state.
\<close>

section \<open>Data\<close>

definition TCP_DNS_MAX_PAYLOAD :: u32 where
  "TCP_DNS_MAX_PAYLOAD = 65535 - 2"

definition UINT16_MAX :: u32 where
  "UINT16_MAX = 65535"

definition RESEND_DELAY_US :: nat where
  "RESEND_DELAY_US = 500"

record tcp_client =
  c_id :: u64
  c_sock :: int
  c_raddr :: bytes
  c_addr_len :: nat
  c_input_buffer :: "bytes option"
  c_input_buffer_size :: u32
  c_input_buffer_used :: u32
  c_next :: ptr

type_synonym client_heap = "ptr \<rightharpoonup> tcp_client"

record dns_server_tcp =
  d_sock :: int
  d_addrlen :: nat
  d_client_id :: u64
  d_client_count :: u16
  d_client_limit :: u16
  d_clients :: ptr
  d_heap :: client_heap
  d_calls :: "call list"

definition emit :: "call list \<Rightarrow> dns_server_tcp \<Rightarrow> dns_server_tcp" where
  "emit cs d = d\<lparr>d_calls := d_calls d @ cs\<rparr>"

section \<open>Removing a client\<close>

text \<open>The search for the predecessor of \<open>client\<close> in the list that starts at \<open>cur\<close>.\<close>

partial_function (option) unlink :: "client_heap \<Rightarrow> ptr \<Rightarrow> ptr \<Rightarrow> ptr \<Rightarrow> client_heap prog" where
  "unlink h cur client next =
     (if cur = 0 then Some (Inr h)
      else (case h cur of
              None \<Rightarrow> Some (Inl Undef)
            | Some c \<Rightarrow> if c_next c = client then Some (Inr (h(cur \<mapsto> c\<lparr>c_next := next\<rparr>)))
                        else unlink h (c_next c) client next))"

definition remove_client :: "ptr \<Rightarrow> dns_server_tcp \<Rightarrow> dns_server_tcp prog" where
  "remove_client client d =
     (case d_heap d client of
        None \<Rightarrow> Some (Inl Undef)
      | Some c \<Rightarrow>
          (let d1 = (if d_client_count d = d_client_limit d then emit [Ev_start Accept_watcher] d else d);
               d2 = d1\<lparr>d_client_count := d_client_count d1 - 1\<rparr>;
               d3 = emit [Ev_stop (Read_watcher client), Ev_stop (Timer_watcher client), Close (c_sock c)] d2;
               next = c_next c
           in if d_clients d3 = client
              then Some (Inr (d3\<lparr>d_clients := next, d_heap := (d_heap d3)(client := None)\<rparr>))
              else bind_prog (unlink (d_heap d3) (d_clients d3) client next)
                     (\<lambda>h. Some (Inr (d3\<lparr>d_heap := h(client := None)\<rparr>)))))"

section \<open>Receiving requests\<close>

text \<open>
  One request from the front of the input buffer: \<open>None\<close> for a partial one, otherwise the copy of the
  request, its announced size, and the client with the rest of the data moved down. \<open>data_size\<close> is a
  16 bit sum. Reads beyond the allocation are undefined.
\<close>

definition get_dns_request :: "mem_env \<Rightarrow> tcp_client \<Rightarrow> (bytes \<times> u16 \<times> tcp_client) option res" where
  "get_dns_request me c =
     (case c_input_buffer c of
        None \<Rightarrow> Inl Undef
      | Some buf \<Rightarrow>
          if length buf < 2 then Inl Undef
          else
            (let req_size = ntohs (buf ! 0) (buf ! 1);
                 data_size = (2 + req_size :: u16)
             in if ucast data_size > c_input_buffer_used c then Inr None
                else if \<not> malloc_ok me (unat req_size) then Inl Fatal
                else if length buf < 2 + unat req_size then Inl Undef
                else
                  (let req = take (unat req_size) (drop 2 buf);
                       used = c_input_buffer_used c - ucast data_size
                   in if length buf < unat data_size + unat used then Inl Undef
                      else Inr (Some (req, req_size,
                        c\<lparr>c_input_buffer := Some (take (unat used) (drop (unat data_size) buf)
                                                    @ drop (unat used) buf),
                          c_input_buffer_used := used\<rparr>)))))"

text \<open>The doubling loop that chooses the new buffer size.\<close>

partial_function (option) grow :: "u32 \<Rightarrow> u32 \<Rightarrow> u32 prog" where
  "grow needed sz =
     (if sz < needed
      then (if sz > TCP_DNS_MAX_PAYLOAD then Some (Inl Fatal) else grow needed (sz * 2))
      else Some (Inr sz))"

text \<open>\<open>realloc\<close>: the old contents followed by indeterminate bytes.\<close>

definition realloc_buf :: "mem_env \<Rightarrow> bytes option \<Rightarrow> nat \<Rightarrow> bytes option" where
  "realloc_buf me old n =
     (if \<not> malloc_ok me n then None
      else (let b = (case old of None \<Rightarrow> [] | Some b \<Rightarrow> b)
            in Some (take n b @ map (junk me) [length (take n b)..<n])))"

definition ensure_space :: "mem_env \<Rightarrow> nat \<Rightarrow> u32 \<Rightarrow> tcp_client \<Rightarrow> tcp_client prog" where
  "ensure_space me len needed_space c =
     (let free_space = c_input_buffer_size c - c_input_buffer_used c
      in if unat free_space < len
         then bind_prog (grow needed_space 64)
                (\<lambda>sz. case realloc_buf me (c_input_buffer c) (unat sz) of
                        None \<Rightarrow> Some (Inl Fatal)
                      | Some b \<Rightarrow> Some (Inr (c\<lparr>c_input_buffer := Some b, c_input_buffer_size := sz\<rparr>)))
         else Some (Inr c))"

text \<open>\<open>memcpy\<close> of the received bytes behind the used part of the buffer.\<close>

definition append_data :: "bytes \<Rightarrow> u32 \<Rightarrow> tcp_client \<Rightarrow> tcp_client res" where
  "append_data data needed_space c =
     (case c_input_buffer c of
        None \<Rightarrow> Inl Undef
      | Some buf \<Rightarrow>
          (let used = unat (c_input_buffer_used c)
           in if length buf < used + length data then Inl Undef
              else Inr (c\<lparr>c_input_buffer := Some (take used buf @ data @ drop (used + length data) buf),
                          c_input_buffer_used := needed_space\<rparr>)))"

text \<open>The loop of \<open>read_cb\<close> that hands every complete request to the callback.\<close>

partial_function (option) split_requests ::
  "mem_env \<Rightarrow> 's req_cb \<Rightarrow> ptr \<Rightarrow> bool \<Rightarrow> dns_server_tcp \<Rightarrow> 's \<Rightarrow> (dns_server_tcp \<times> 's) prog" where
  "split_requests me cb client request_received d s =
     (case d_heap d client of
        None \<Rightarrow> Some (Inl Undef)
      | Some c \<Rightarrow>
          (case get_dns_request me c of
             Inl e \<Rightarrow> Some (Inl e)
           | Inr None \<Rightarrow>
               Some (Inr (if request_received then emit [Ev_again (Timer_watcher client)] d else d, s))
           | Inr (Some (req, req_size, c')) \<Rightarrow>
               (let d' = d\<lparr>d_heap := (d_heap d)(client \<mapsto> c')\<rparr>
                in if unat req_size < DNS_HEADER_LENGTH
                   then bind_prog (remove_client client d') (\<lambda>d''. Some (Inr (d'', s)))
                   else (case cb True (c_raddr c) req s of
                           Inl e \<Rightarrow> Some (Inl e)
                         | Inr s' \<Rightarrow> split_requests me cb client True d' s'))))"

text \<open>What \<open>recv\<close> gives back: data (none: the peer closed the connection) or an error.\<close>

datatype recv_result = Received bytes | Recv_error errno

definition read_cb ::
  "mem_env \<Rightarrow> 's req_cb \<Rightarrow> ptr \<Rightarrow> recv_result \<Rightarrow> dns_server_tcp \<Rightarrow> 's \<Rightarrow> (dns_server_tcp \<times> 's) prog" where
  "read_cb me cb client r d s =
     (let drop_client = bind_prog (remove_client client d) (\<lambda>d'. Some (Inr (d', s)))
      in case d_heap d client of
           None \<Rightarrow> Some (Inl Undef)
         | Some c \<Rightarrow>
             (case r of
                Recv_error e \<Rightarrow> if e = EAGAIN \<or> e = EWOULDBLOCK then Some (Inr (d, s)) else drop_client
              | Received data \<Rightarrow>
                  (let len = length data
                   in if len = 0 then drop_client
                      else if len > 65535 \<or> c_input_buffer_used c > UINT16_MAX - word_of_nat len
                      then drop_client
                      else
                        (let needed_space = c_input_buffer_used c + word_of_nat len
                         in if needed_space > TCP_DNS_MAX_PAYLOAD then drop_client
                            else bind_prog (ensure_space me len needed_space c)
                                   (\<lambda>c1. case append_data data needed_space c1 of
                                           Inl e \<Rightarrow> Some (Inl e)
                                         | Inr c2 \<Rightarrow>
                                             split_requests me cb client False
                                               (d\<lparr>d_heap := (d_heap d)(client \<mapsto> c2)\<rparr>) s)))))"

definition tcp_timer_cb :: "ptr \<Rightarrow> dns_server_tcp \<Rightarrow> dns_server_tcp prog" where
  "tcp_timer_cb client d = remove_client client d"

section \<open>Accepting clients, creating and stopping the server\<close>

definition IDLE_TIMEOUT_S :: ev_tstamp where
  "IDLE_TIMEOUT_S = 120"

datatype accept_result = Accepted int bytes | Accept_error errno

text \<open>
  Everything after the error check of \<open>accept_cb\<close>. \<open>alloc\<close> is the result of \<open>calloc\<close>.
\<close>

definition add_client :: "ptr option \<Rightarrow> int \<Rightarrow> bytes \<Rightarrow> dns_server_tcp \<Rightarrow> dns_server_tcp res" where
  "add_client alloc client_sock client_addr d =
     (let d1 = d\<lparr>d_client_id := d_client_id d + 1, d_client_count := d_client_count d + 1\<rparr>;
          d2 = (if d_client_count d1 = d_client_limit d1 then emit [Ev_stop Accept_watcher] d1 else d1)
      in case alloc of
           None \<Rightarrow> Inl Fatal
         | Some p \<Rightarrow>
             (let c = \<lparr>c_id = d_client_id d2, c_sock = client_sock, c_raddr = client_addr,
                       c_addr_len = length client_addr, c_input_buffer = None,
                       c_input_buffer_size = 0, c_input_buffer_used = 0, c_next = d_clients d2\<rparr>
              in Inr (emit [Ev_start (Read_watcher p), Ev_set (Timer_watcher p) 0 IDLE_TIMEOUT_S,
                            Ev_again (Timer_watcher p)]
                        (d2\<lparr>d_clients := p, d_heap := (d_heap d2)(p \<mapsto> c)\<rparr>))))"

text \<open>
  The error check of \<open>accept_cb\<close> returns only for errors other than EAGAIN and EWOULDBLOCK; for these
  two the code goes on with socket -1 and an address it never wrote (\<open>uninit\<close>).
\<close>

definition accept_cb ::
  "accept_result \<Rightarrow> bytes \<Rightarrow> ptr option \<Rightarrow> dns_server_tcp \<Rightarrow> dns_server_tcp res" where
  "accept_cb r uninit alloc d =
     (case r of
        Accepted sock addr \<Rightarrow> add_client alloc sock addr d
      | Accept_error e \<Rightarrow>
          if e \<noteq> EAGAIN \<and> e \<noteq> EWOULDBLOCK then Inr d else add_client alloc (-1) uninit d)"

text \<open>Results of the calls that set up a listening socket.\<close>

record listen_env =
  le_socket :: int
  le_family :: family
  le_addrlen :: nat
  le_bind :: int
  le_listen :: int
  le_getfl :: int
  le_setfl :: int

definition get_tcp_listen_sock :: "listen_env \<Rightarrow> int res" where
  "get_tcp_listen_sock le =
     (if le_socket le < 0 then Inl Fatal
      else if le_family le \<noteq> AF_INET \<and> le_family le \<noteq> AF_INET6 then Inl Fatal
      else if le_bind le < 0 then Inl Fatal
      else if le_listen le = -1 then Inl Fatal
      else if le_getfl le = -1 then Inl Fatal
      else if le_setfl le = -1 then Inl Fatal
      else Inr (le_socket le))"

definition dns_server_tcp_create :: "bool \<Rightarrow> listen_env \<Rightarrow> u16 \<Rightarrow> dns_server_tcp res" where
  "dns_server_tcp_create alloc le tcp_client_limit =
     (if \<not> alloc then Inl Fatal
      else bind_res (get_tcp_listen_sock le)
             (\<lambda>sock. Inr \<lparr>d_sock = sock, d_addrlen = le_addrlen le, d_client_id = 0, d_client_count = 0,
                          d_client_limit = tcp_client_limit, d_clients = 0, d_heap = Map.empty,
                          d_calls = [Ev_start Accept_watcher]\<rparr>))"

partial_function (option) remove_all :: "dns_server_tcp \<Rightarrow> dns_server_tcp prog" where
  "remove_all d =
     (if d_clients d = 0 then Some (Inr d)
      else (case remove_client (d_clients d) d of
              None \<Rightarrow> None
            | Some (Inl e) \<Rightarrow> Some (Inl e)
            | Some (Inr d') \<Rightarrow> remove_all d'))"

definition dns_server_tcp_stop :: "dns_server_tcp \<Rightarrow> dns_server_tcp prog" where
  "dns_server_tcp_stop d =
     bind_prog (remove_all d) (\<lambda>d'. Some (Inr (emit [Ev_stop Accept_watcher] d')))"

definition dns_server_tcp_cleanup :: "dns_server_tcp \<Rightarrow> dns_server_tcp" where
  "dns_server_tcp_cleanup d = emit [Close (d_sock d)] d"

section \<open>Sending responses\<close>

datatype send_result = Sent nat | Send_error errno

text \<open>The client whose address equals \<open>raddr\<close> on the length of its own address; 0 for none.\<close>

partial_function (option) find_client :: "client_heap \<Rightarrow> bytes \<Rightarrow> ptr \<Rightarrow> ptr prog" where
  "find_client h raddr cur =
     (if cur = 0 then Some (Inr 0)
      else (case h cur of
              None \<Rightarrow> Some (Inl Undef)
            | Some c \<Rightarrow> if take (c_addr_len c) raddr = take (c_addr_len c) (c_raddr c)
                        then Some (Inr cur)
                        else find_client h raddr (c_next c)))"

text \<open>
  The sending loop. \<open>snd_res k\<close> is the result of the \<open>k\<close>-th \<open>send\<close> of the response, \<open>left\<close> the
  attempts that remain. The result is the log of calls with either the error that ends the loop or
  the number of bytes sent.
\<close>

fun send_loop ::
  "(nat \<Rightarrow> send_result) \<Rightarrow> int \<Rightarrow> bytes \<Rightarrow> nat \<Rightarrow> nat \<Rightarrow> nat \<Rightarrow> call list \<times> (errno + nat)" where
  "send_loop snd_res sock resp 0 k sent = ([], Inr sent)"
| "send_loop snd_res sock resp (Suc left) k sent =
     (case snd_res k of
        Send_error e \<Rightarrow>
          if e \<noteq> EAGAIN \<and> e \<noteq> EWOULDBLOCK then ([], Inl e)
          else send_loop snd_res sock resp left (Suc k) sent
      | Sent len \<Rightarrow>
          (let call = Send sock (take len (drop sent resp));
               sent' = sent + len
           in if sent' = length resp then ([call], Inr sent')
              else (let (cs, r) = send_loop snd_res sock resp left (Suc k) sent'
                    in (call # Usleep RESEND_DELAY_US # cs, r))))"

text \<open>\<open>prefix_res\<close> is the result of sending the two bytes of the length.\<close>

definition dns_server_tcp_respond ::
  "send_result \<Rightarrow> (nat \<Rightarrow> send_result) \<Rightarrow> bytes \<Rightarrow> bytes \<Rightarrow> dns_server_tcp \<Rightarrow> dns_server_tcp prog" where
  "dns_server_tcp_respond prefix_res snd_res raddr resp d =
     (if length resp < DNS_HEADER_LENGTH \<or> length resp > unat TCP_DNS_MAX_PAYLOAD then Some (Inr d)
      else
        bind_prog (find_client (d_heap d) raddr (d_clients d))
          (\<lambda>client.
             if client = 0 then Some (Inr d)
             else
               (case d_heap d client of
                  None \<Rightarrow> Some (Inl Undef)
                | Some c \<Rightarrow>
                    (let resp_size = htons (word_of_nat (length resp))
                     in case prefix_res of
                          Sent len \<Rightarrow>
                            (let d1 = emit [Send (c_sock c) (take len resp_size)] d
                             in if len \<noteq> 2 then remove_client client d1
                                else
                                  (let (cs, r) = send_loop snd_res (c_sock c) resp 50 0 0;
                                       d2 = emit cs d1
                                   in case r of
                                        Inl e \<Rightarrow> remove_client client d2
                                      | Inr sent \<Rightarrow>
                                          if sent \<noteq> length resp then remove_client client d2
                                          else Some (Inr (emit [Ev_again (Timer_watcher client)] d2))))
                        | Send_error e \<Rightarrow> remove_client client d))))"

end
