(* ===== verification/Tcp_Clients.thy ===== *)
theory Tcp_Clients
  imports Dns_Server_Tcp
begin

text \<open>
  The client list of the TCP server: the chain of \<open>next\<close> pointers represents a list of distinct clients,
  \<open>client_count\<close> is its length, accepting is suspended exactly at the client limit, and the watchers that
  run are those of the listed clients. Every operation of the server keeps this; the steps of the server
  form a transition system whose reachable states all satisfy it.
\<close>

section \<open>Lists on the heap\<close>

fun chain :: "client_heap \<Rightarrow> ptr \<Rightarrow> ptr list \<Rightarrow> bool" where
  "chain h p [] \<longleftrightarrow> p = 0"
| "chain h p (q # qs) \<longleftrightarrow> p = q \<and> q \<noteq> 0 \<and> (case h q of None \<Rightarrow> False | Some c \<Rightarrow> chain h (c_next c) qs)"

lemma chain_frame:
  "(\<And>r. r \<in> set ps \<Longrightarrow> map_option c_next (h' r) = map_option c_next (h r)) \<Longrightarrow> chain h p ps \<Longrightarrow> chain h' p ps"
proof (induction ps arbitrary: p)
  case (Cons q qs)
  then show ?case
    by (fastforce split: option.splits)
qed simp

lemma chain_update_other [simp]: "r \<notin> set ps \<Longrightarrow> chain (h(r := x)) p ps \<longleftrightarrow> chain h p ps"
  by (induction ps arbitrary: p) (auto split: option.splits)

lemma chain_dom: "chain h p ps \<Longrightarrow> set ps \<subseteq> dom h"
  by (induction ps arbitrary: p) (auto split: option.splits)

lemma chain_not_null: "chain h p ps \<Longrightarrow> 0 \<notin> set ps"
  by (induction ps arbitrary: p) (auto split: option.splits)

lemma chain_head: "chain h p ps \<Longrightarrow> p = (case ps of [] \<Rightarrow> 0 | q # _ \<Rightarrow> q)"
  by (cases ps) auto

text \<open>The heap after clients changed in nothing but their links.\<close>

definition unlinked :: "tcp_client \<Rightarrow> tcp_client" where
  "unlinked c = c\<lparr>c_next := 0\<rparr>"

definition same_clients :: "client_heap \<Rightarrow> client_heap \<Rightarrow> bool" where
  "same_clients h h' \<longleftrightarrow> (\<forall>r. map_option unlinked (h' r) = map_option unlinked (h r))"

lemma same_clients_refl [simp]: "same_clients h h"
  by (simp add: same_clients_def)

lemma same_clients_relink: "h a = Some ca \<Longrightarrow> same_clients h (h(a \<mapsto> ca\<lparr>c_next := n\<rparr>))"
  by (simp add: same_clients_def unlinked_def)

lemma unlinked_eqD: "unlinked c' = unlinked c \<Longrightarrow> c' = c\<lparr>c_next := c_next c'\<rparr>"
  by (cases c; cases c') (simp add: unlinked_def)

lemma same_clients_SomeD:
  "same_clients h h' \<Longrightarrow> h' r = Some c' \<Longrightarrow> \<exists>c n. h r = Some c \<and> c' = c\<lparr>c_next := n\<rparr>"
  unfolding same_clients_def by (metis map_option_eq_Some option.simps(9) unlinked_eqD)

lemma same_clients_dom: "same_clients h h' \<Longrightarrow> dom h' = dom h"
  unfolding same_clients_def dom_def by (metis option.map_disc_iff)

lemma unlink_correct:
  assumes "chain h p (a # qs)" "distinct (a # qs)" "q \<in> set qs" "h q = Some cq"
  shows "\<exists>h'. returns (unlink h p q (c_next cq)) h' \<and> chain h' p (remove1 q (a # qs)) \<and>
           same_clients h h' \<and> (\<forall>r. r \<notin> set (a # qs) \<longrightarrow> h' r = h r)"
  using assms
proof (induction qs arbitrary: a p)
  case (Cons b qs)
  then obtain ca where ca: "h a = Some ca" "p = a" "a \<noteq> 0" "chain h (c_next ca) (b # qs)"
    by (auto split: option.splits)
  show ?case
  proof (cases "q = b")
    case True
    let ?h = "h(a \<mapsto> ca\<lparr>c_next := c_next cq\<rparr>)"
    have "chain h (c_next cq) qs"
      using ca(4) Cons.prems(4) True by simp
    then have "chain ?h p (a # qs)"
      using ca Cons.prems(2) by simp
    moreover have "same_clients h ?h"
      using ca(1) by (rule same_clients_relink)
    moreover have "returns (unlink h p q (c_next cq)) ?h"
      using ca True by (subst unlink.simps) simp
    moreover have "a \<noteq> q" using True Cons.prems(2) by auto
    ultimately show ?thesis using True by auto
  next
    case False
    then have q: "q \<in> set qs" using Cons.prems(3) by simp
    obtain h' where h': "returns (unlink h (c_next ca) q (c_next cq)) h'"
      "chain h' (c_next ca) (remove1 q (b # qs))" "same_clients h h'"
      "\<forall>r. r \<notin> set (b # qs) \<longrightarrow> h' r = h r"
      using Cons.IH [OF ca(4)] Cons.prems(2,4) q by auto
    have nq: "c_next ca \<noteq> q" using ca(4) False by simp
    have "returns (unlink h p q (c_next cq)) h'"
      using ca nq h'(1) by (subst unlink.simps) simp
    moreover have aq: "a \<noteq> q" using q Cons.prems(2) by auto
    moreover have "h' a = Some ca" using h'(4) ca(1) Cons.prems(2) by auto
    then have "chain h' p (a # remove1 q (b # qs))"
      using h'(2) ca by simp
    ultimately show ?thesis using h'(3,4) by auto
  qed
qed simp

section \<open>The invariant of the server\<close>

text \<open>
  A client's input buffer: none before the first data, afterwards an allocation of the recorded size,
  between 64 and 65536 bytes, of which at most 65533 are in use.
\<close>

definition client_ok :: "tcp_client \<Rightarrow> bool" where
  "client_ok c \<longleftrightarrow>
     (case c_input_buffer c of
        None \<Rightarrow> c_input_buffer_size c = 0 \<and> c_input_buffer_used c = 0
      | Some b \<Rightarrow> length b = unat (c_input_buffer_size c) \<and> 64 \<le> length b \<and> length b \<le> 65536 \<and>
                  unat (c_input_buffer_used c) \<le> length b \<and> unat (c_input_buffer_used c) \<le> 65533)"

text \<open>Which watchers run, for the clients \<open>ps\<close> and a limit of \<open>n\<close> clients.\<close>

definition watch_ok :: "call list \<Rightarrow> ptr list \<Rightarrow> nat \<Rightarrow> bool" where
  "watch_ok cs ps n \<longleftrightarrow>
     (ev_active cs Accept_watcher \<longleftrightarrow> length ps < n) \<and>
     (\<forall>p. ev_active cs (Read_watcher p) \<longleftrightarrow> p \<in> set ps) \<and>
     (\<forall>p. ev_active cs (Timer_watcher p) \<longleftrightarrow> p \<in> set ps)"

definition tcp_inv :: "dns_server_tcp \<Rightarrow> ptr list \<Rightarrow> bool" where
  "tcp_inv d ps \<longleftrightarrow>
     chain (d_heap d) (d_clients d) ps \<and> distinct ps \<and> dom (d_heap d) = set ps \<and>
     length ps = unat (d_client_count d) \<and> d_client_count d \<le> d_client_limit d \<and>
     (\<forall>p c. d_heap d p = Some c \<longrightarrow> client_ok c) \<and>
     watch_ok (d_calls d) ps (unat (d_client_limit d))"

lemma client_ok_relink [simp]: "client_ok (c\<lparr>c_next := n\<rparr>) = client_ok c"
  by (simp add: client_ok_def split: option.split)

lemma watch_ok_remove:
  assumes "watch_ok cs ps n" "p \<in> set ps" "distinct ps" "length ps \<le> n"
  shows "watch_ok (cs @ (if length ps = n then [Ev_start Accept_watcher] else []) @
           [Ev_stop (Read_watcher p), Ev_stop (Timer_watcher p), Close s]) (remove1 p ps) n"
proof -
  have "length (remove1 p ps) < n"
    using assms(4) length_pos_if_in_set [OF assms(2)] by (simp only: length_remove1 assms(2) if_True)
  with assms show ?thesis
    by (auto simp: watch_ok_def ev_active_append)
qed

lemma watch_ok_add:
  assumes "watch_ok cs ps n" "length ps < n"
  shows "watch_ok (cs @ (if Suc (length ps) = n then [Ev_stop Accept_watcher] else []) @
           [Ev_start (Read_watcher p), Ev_set (Timer_watcher p) a b, Ev_again (Timer_watcher p)]) (p # ps) n"
  using assms by (auto simp: watch_ok_def ev_active_append)

lemma watch_ok_neutral:
  assumes "watch_ok cs ps n" "\<forall>c \<in> set ds. (\<exists>s b. c = Send s b) \<or> (\<exists>t. c = Usleep t) \<or> (\<exists>p \<in> set ps. c = Ev_again (Timer_watcher p))"
  shows "watch_ok (cs @ ds) ps n"
  using assms(2)
proof (induction ds rule: rev_induct)
  case (snoc c ds)
  then have "watch_ok (cs @ ds) ps n" by simp
  then show ?case
    using snoc.prems by (auto simp: watch_ok_def append_assoc [symmetric] ev_active_append simp del: append_assoc split: if_splits)
qed (simp add: assms(1))

lemma tcp_inv_heapD:
  "tcp_inv d ps \<Longrightarrow> p \<in> set ps \<Longrightarrow> \<exists>c. d_heap d p = Some c \<and> client_ok c"
  unfolding tcp_inv_def by (metis domD)

text \<open>Changing a client without its link, and logging calls that leave the watchers as they are.\<close>

lemma tcp_inv_client:
  assumes "tcp_inv d ps" "d_heap d p = Some c" "c_next c' = c_next c" "client_ok c'"
  shows "tcp_inv (d\<lparr>d_heap := (d_heap d)(p \<mapsto> c')\<rparr>) ps"
proof -
  have "chain ((d_heap d)(p \<mapsto> c')) (d_clients d) ps"
    using assms(1) by (auto simp: tcp_inv_def assms(2,3) intro: chain_frame [rotated])
  moreover have "p \<in> set ps" using assms(1,2) by (auto simp: tcp_inv_def)
  ultimately show ?thesis
    using assms by (auto simp: tcp_inv_def)
qed

lemma tcp_inv_emit:
  assumes "tcp_inv d ps" "\<forall>c \<in> set ds. (\<exists>s b. c = Send s b) \<or> (\<exists>t. c = Usleep t) \<or> (\<exists>p \<in> set ps. c = Ev_again (Timer_watcher p))"
  shows "tcp_inv (emit ds d) ps"
  using assms(1) watch_ok_neutral [OF _ assms(2)] by (simp add: tcp_inv_def emit_def)

section \<open>Operations keep the invariant\<close>

lemma remove_client_correct:
  assumes inv: "tcp_inv d ps" and p: "d_heap d p = Some c"
  shows "\<exists>d'. returns (remove_client p d) d' \<and> tcp_inv d' (remove1 p ps) \<and>
           same_clients ((d_heap d)(p := None)) (d_heap d') \<and>
           d_client_limit d' = d_client_limit d \<and> d_sock d' = d_sock d \<and>
           d_calls d' = d_calls d @ (if d_client_count d = d_client_limit d then [Ev_start Accept_watcher] else []) @
             [Ev_stop (Read_watcher p), Ev_stop (Timer_watcher p), Close (c_sock c)]"
proof -
  let ?cs = "(if d_client_count d = d_client_limit d then [Ev_start Accept_watcher] else []) @
             [Ev_stop (Read_watcher p), Ev_stop (Timer_watcher p), Close (c_sock c)]"
  have ps: "chain (d_heap d) (d_clients d) ps" "distinct ps" "dom (d_heap d) = set ps"
    "length ps = unat (d_client_count d)" "d_client_count d \<le> d_client_limit d"
    "\<And>p c. d_heap d p = Some c \<Longrightarrow> client_ok c" "watch_ok (d_calls d) ps (unat (d_client_limit d))"
    using inv by (auto simp: tcp_inv_def)
  have mem: "p \<in> set ps" using p ps(3) by auto
  have full: "d_client_count d = d_client_limit d \<longleftrightarrow> length ps = unat (d_client_limit d)"
    by (simp add: ps(4) wordsimps)
  have "0 < unat (d_client_count d)" using mem ps(4) by (metis length_pos_if_in_set)
  then have count: "unat (d_client_count d - 1) = length (remove1 p ps)"
    using mem ps(4) by (simp add: unat_minus_one unat_gt_0 length_remove1)
  have watch: "watch_ok (d_calls d @ ?cs) (remove1 p ps) (unat (d_client_limit d))"
    using watch_ok_remove [OF ps(7) mem ps(2), of "c_sock c"] ps(4,5) by (simp add: full wordsimps)
  have inv': "tcp_inv (d\<lparr>d_client_count := d_client_count d - 1, d_calls := d_calls d @ ?cs,
                       d_clients := q, d_heap := h(p := None)\<rparr>) (remove1 p ps)"
    if "chain h q (remove1 p ps)" "same_clients (d_heap d) h" for h q
  proof -
    have "chain (h(p := None)) q (remove1 p ps)" "dom (h(p := None)) = set (remove1 p ps)"
      using that(1) same_clients_dom [OF that(2)] ps(2,3) by simp_all
    moreover have "client_ok cr" if "(h(p := None)) r = Some cr" for r cr
      using that same_clients_SomeD [OF \<open>same_clients (d_heap d) h\<close>] ps(6)
      by (fastforce split: if_splits)
    moreover have "d_client_count d - 1 \<le> d_client_limit d"
      using count ps(4,5) mem by (simp add: wordsimps length_remove1)
    ultimately show ?thesis
      using watch ps(2) unfolding tcp_inv_def by (simp add: count)
  qed
  show ?thesis
  proof (cases "d_clients d = p")
    case True
    then obtain qs where qs: "ps = p # qs" "chain (d_heap d) (c_next c) qs"
      using ps(1) mem p by (cases ps) auto
    let ?d = "d\<lparr>d_client_count := d_client_count d - 1, d_calls := d_calls d @ ?cs,
                d_clients := c_next c, d_heap := (d_heap d)(p := None)\<rparr>"
    have "returns (remove_client p d) ?d"
      using True p by (simp add: remove_client_def Let_def emit_def)
    with inv' [of "d_heap d" "c_next c"] qs show ?thesis by auto
  next
    case False
    then obtain a qs where qs: "ps = a # qs" "p \<in> set qs"
      using ps(1) mem by (cases ps) (auto split: option.splits)
    obtain h where h: "returns (unlink (d_heap d) (d_clients d) p (c_next c)) h"
      "chain h (d_clients d) (remove1 p ps)" "same_clients (d_heap d) h"
      using unlink_correct [of "d_heap d" "d_clients d" a qs p c] ps(1,2) qs p by auto
    let ?d = "d\<lparr>d_client_count := d_client_count d - 1, d_calls := d_calls d @ ?cs,
                d_clients := d_clients d, d_heap := h(p := None)\<rparr>"
    have "returns (remove_client p d) ?d"
      using False p h(1) by (simp add: remove_client_def Let_def emit_def)
    moreover have "same_clients ((d_heap d)(p := None)) (h(p := None))"
      using h(3) by (simp add: same_clients_def)
    ultimately show ?thesis using inv' [OF h(2,3)] by auto
  qed
qed

lemma add_client_correct:
  assumes inv: "tcp_inv d ps" and room: "d_client_count d < d_client_limit d"
    and p: "p \<noteq> 0" "p \<notin> dom (d_heap d)"
  shows "\<exists>d'. add_client (Some p) sock addr d = Inr d' \<and> tcp_inv d' (p # ps) \<and>
           d_client_limit d' = d_client_limit d \<and>
           d_heap d' = (d_heap d)(p \<mapsto> \<lparr>c_id = d_client_id d + 1, c_sock = sock, c_raddr = addr,
             c_addr_len = length addr, c_input_buffer = None, c_input_buffer_size = 0,
             c_input_buffer_used = 0, c_next = d_clients d\<rparr>)"
proof -
  let ?c = "\<lparr>c_id = d_client_id d + 1, c_sock = sock, c_raddr = addr, c_addr_len = length addr,
             c_input_buffer = None, c_input_buffer_size = 0, c_input_buffer_used = 0, c_next = d_clients d\<rparr>"
  let ?cs = "(if d_client_count d + 1 = d_client_limit d then [Ev_stop Accept_watcher] else []) @
             [Ev_start (Read_watcher p), Ev_set (Timer_watcher p) 0 IDLE_TIMEOUT_S, Ev_again (Timer_watcher p)]"
  let ?d = "d\<lparr>d_client_id := d_client_id d + 1, d_client_count := d_client_count d + 1,
              d_calls := d_calls d @ ?cs, d_clients := p, d_heap := (d_heap d)(p \<mapsto> ?c)\<rparr>"
  have ps: "chain (d_heap d) (d_clients d) ps" "distinct ps" "dom (d_heap d) = set ps"
    "length ps = unat (d_client_count d)"
    "\<And>p c. d_heap d p = Some c \<Longrightarrow> client_ok c" "watch_ok (d_calls d) ps (unat (d_client_limit d))"
    using inv by (auto simp: tcp_inv_def)
  have count: "unat (d_client_count d + 1) = Suc (length ps)"
    using unat_Suc_lt [OF room] ps(4) by simp
  have lt: "length ps < unat (d_client_limit d)" using room ps(4) by (simp add: wordsimps)
  have "watch_ok (d_calls d @ ?cs) (p # ps) (unat (d_client_limit d))"
    using watch_ok_add [OF ps(6) lt] count by (simp add: wordsimps)
  moreover have "client_ok ?c" by (simp add: client_ok_def)
  ultimately have "tcp_inv ?d (p # ps)"
    using ps p lt unfolding tcp_inv_def by (simp add: count wordsimps)
  moreover have "add_client (Some p) sock addr d = Inr ?d"
    by (simp add: add_client_def emit_def Let_def)
  ultimately show ?thesis by auto
qed

lemma create_correct:
  assumes "dns_server_tcp_create a le limit = Inr d" and "0 < limit"
  shows "tcp_inv d []"
  using assms
  by (auto simp: dns_server_tcp_create_def tcp_inv_def watch_ok_def ev_active_def wordsimps split: if_splits)

lemma find_client_correct:
  assumes "chain h p ps"
  shows "\<exists>q. returns (find_client h raddr p) q \<and> (q = 0 \<or> q \<in> set ps) \<and>
           (q = 0 \<longrightarrow> (\<forall>r \<in> set ps. \<forall>c. h r = Some c \<longrightarrow> take (c_addr_len c) raddr \<noteq> take (c_addr_len c) (c_raddr c))) \<and>
           (\<forall>c. q \<noteq> 0 \<longrightarrow> h q = Some c \<longrightarrow> take (c_addr_len c) raddr = take (c_addr_len c) (c_raddr c))"
  using assms
proof (induction ps arbitrary: p)
  case Nil
  then show ?case by (simp add: find_client.simps)
next
  case (Cons a qs)
  then obtain c where c: "h a = Some c" "p = a" "a \<noteq> 0" "chain h (c_next c) qs"
    by (auto split: option.splits)
  show ?case
  proof (cases "take (c_addr_len c) raddr = take (c_addr_len c) (c_raddr c)")
    case True
    with c show ?thesis by (subst find_client.simps) auto
  next
    case False
    with c have "find_client h raddr p = find_client h raddr (c_next c)"
      by (subst find_client.simps) simp
    with Cons.IH [OF c(4)] c False show ?thesis by auto
  qed
qed

lemma send_loop_calls:
  "send_loop f sock resp n k sent = (cs, r) \<Longrightarrow>
   \<forall>c \<in> set cs. (\<exists>b. c = Send sock b) \<or> c = Usleep RESEND_DELAY_US"
proof (induction f sock resp n k sent arbitrary: cs r rule: send_loop.induct)
  case (2 f sock resp left k sent)
  then show ?case
    by (fastforce simp: Let_def split: send_result.splits if_splits prod.splits)
qed simp

lemma tcp_inv_sends:
  "tcp_inv d ps \<Longrightarrow> send_loop f sock resp n k sent = (cs, r) \<Longrightarrow> tcp_inv (emit cs d) ps"
  using send_loop_calls [of f sock resp n k sent cs r] by (intro tcp_inv_emit) blast+

lemma emit_simps [simp]:
  "d_heap (emit cs d) = d_heap d" "d_clients (emit cs d) = d_clients d"
  "d_client_limit (emit cs d) = d_client_limit d" "d_client_count (emit cs d) = d_client_count d"
  "d_sock (emit cs d) = d_sock d" "d_calls (emit cs d) = d_calls d @ cs"
  by (simp_all add: emit_def)

text \<open>The bytes that a log of calls writes to a socket.\<close>

fun wire :: "int \<Rightarrow> call list \<Rightarrow> bytes" where
  "wire sock [] = []"
| "wire sock (c # cs) = (case c of Send s b \<Rightarrow> if s = sock then b else [] | _ \<Rightarrow> []) @ wire sock cs"

lemma wire_append [simp]: "wire sock (cs @ ds) = wire sock cs @ wire sock ds"
  by (induction cs) auto

lemma send_loop_wire:
  "send_loop f sock resp n k sent = (cs, Inr (length resp)) \<Longrightarrow> sent \<le> length resp \<Longrightarrow>
   wire sock cs = drop sent resp"
proof (induction f sock resp n k sent arbitrary: cs rule: send_loop.induct)
  case (2 f sock resp left k sent)
  have grows: "sent \<le> r" if "send_loop f sock resp n k sent = (cs, Inr r)" for n k sent cs r
    using that
  proof (induction f sock resp n k sent arbitrary: cs rule: send_loop.induct)
    case (2 f sock resp left k sent)
    then show ?case
      by (fastforce simp: Let_def split: send_result.splits if_splits prod.splits)
  qed simp
  show ?case
  proof (cases "f k")
    case (Sent len)
    show ?thesis
    proof (cases "sent + len = length resp")
      case True
      with 2(3) Sent show ?thesis by auto
    next
      case False
      with 2(3) Sent obtain ds where
        ds: "send_loop f sock resp left (Suc k) (sent + len) = (ds, Inr (length resp))"
          "cs = Send sock (take len (drop sent resp)) # Usleep RESEND_DELAY_US # ds"
        by (auto simp: Let_def split: prod.splits)
      have "wire sock ds = drop (sent + len) resp"
        using 2(1) [OF Sent refl refl False ds(1)] grows [OF ds(1)] by simp
      then have "wire sock cs = take len (drop sent resp) @ drop len (drop sent resp)"
        by (simp add: ds(2) add.commute)
      then show ?thesis by (simp only: append_take_drop_id)
    qed
  next
    case (Send_error e)
    with 2 show ?thesis by (auto split: if_splits)
  qed
qed simp

text \<open>
  The possible results of answering: nothing happens, or the client with the address of the request
  gets the complete framed response and stays, or that client is removed and its socket closed.
\<close>

definition delivered :: "dns_server_tcp \<Rightarrow> ptr list \<Rightarrow> ptr \<Rightarrow> bytes \<Rightarrow> dns_server_tcp \<Rightarrow> bool" where
  "delivered d ps q resp d' \<longleftrightarrow>
     (\<exists>c cs. d_heap d q = Some c \<and> d_calls d' = d_calls d @ cs \<and> tcp_inv d' ps \<and>
        wire (c_sock c) cs = htons (word_of_nat (length resp)) @ resp)"

definition dropped :: "dns_server_tcp \<Rightarrow> ptr list \<Rightarrow> ptr \<Rightarrow> dns_server_tcp \<Rightarrow> bool" where
  "dropped d ps q d' \<longleftrightarrow>
     (\<exists>c cs. d_heap d q = Some c \<and> d_calls d' = d_calls d @ cs \<and> tcp_inv d' (remove1 q ps) \<and>
        Close (c_sock c) \<in> set cs \<and> q \<notin> dom (d_heap d'))"

lemma remove_client_drops:
  assumes inv: "tcp_inv e ps" and e: "d_heap e = d_heap d" "d_calls e = d_calls d @ ds"
    and q: "d_heap d q = Some c"
  shows "\<exists>d'. returns (remove_client q e) d' \<and> dropped d ps q d'"
proof -
  obtain d' where d': "returns (remove_client q e) d'" "tcp_inv d' (remove1 q ps)"
    "d_calls d' = d_calls e @ (if d_client_count e = d_client_limit e then [Ev_start Accept_watcher] else []) @
             [Ev_stop (Read_watcher q), Ev_stop (Timer_watcher q), Close (c_sock c)]"
    using remove_client_correct [OF inv, of q c] e(1) q by auto
  have "q \<notin> dom (d_heap d')"
    using d'(2) inv by (simp add: tcp_inv_def)
  with d' q e(2) show ?thesis by (auto simp: dropped_def)
qed

lemma respond_cases:
  assumes inv: "tcp_inv d ps"
  obtains (ignored) "returns (dns_server_tcp_respond pr f raddr resp d) d"
  | (answered) q d' where "q \<in> set ps" "returns (dns_server_tcp_respond pr f raddr resp d) d'"
      "returns (find_client (d_heap d) raddr (d_clients d)) q"
      "delivered d ps q resp d' \<or> dropped d ps q d'"
proof (cases "length resp < DNS_HEADER_LENGTH \<or> length resp > unat TCP_DNS_MAX_PAYLOAD")
  case True
  then show ?thesis by (intro ignored) (auto simp: dns_server_tcp_respond_def)
next
  case ok: False
  have chain: "chain (d_heap d) (d_clients d) ps" using inv by (simp add: tcp_inv_def)
  obtain q where q: "returns (find_client (d_heap d) raddr (d_clients d)) q" "q = 0 \<or> q \<in> set ps"
    using find_client_correct [OF chain] by blast
  show ?thesis
  proof (cases "q = 0")
    case True
    then show ?thesis using q ok by (intro ignored) (auto simp: dns_server_tcp_respond_def)
  next
    case False
    then have mem: "q \<in> set ps" using q(2) by simp
    then obtain c where c: "d_heap d q = Some c" using tcp_inv_heapD [OF inv] by blast
    note removed = remove_client_drops [where d = d, OF _ _ _ c]
    have "\<exists>d'. returns (dns_server_tcp_respond pr f raddr resp d) d' \<and>
        (delivered d ps q resp d' \<or> dropped d ps q d')"
    proof (cases pr)
      case (Sent len)
      define d1 where "d1 = emit [Send (c_sock c) (take len (htons (word_of_nat (length resp))))] d"
      obtain cs r where cs: "send_loop f (c_sock c) resp 50 0 0 = (cs, r)" by fastforce
      have i1: "tcp_inv d1 ps" unfolding d1_def using inv by (intro tcp_inv_emit) auto
      have i2: "tcp_inv (emit cs d1) ps" using i1 cs by (rule tcp_inv_sends)
      have i3: "tcp_inv (emit [Ev_again (Timer_watcher q)] (emit cs d1)) ps"
        using mem by (intro tcp_inv_emit [OF i2]) auto
      have sent: "delivered d ps q resp (emit [Ev_again (Timer_watcher q)] (emit cs d1))"
        if "len = 2" "r = Inr (length resp)"
        using that send_loop_wire [of f "c_sock c" resp 50 0 0 cs] cs c i3
        by (simp add: delivered_def d1_def)
      have eq: "dns_server_tcp_respond pr f raddr resp d =
          (if len \<noteq> 2 then remove_client q d1
           else case r of
                  Inl e \<Rightarrow> remove_client q (emit cs d1)
                | Inr sent \<Rightarrow> if sent \<noteq> length resp then remove_client q (emit cs d1)
                              else Some (Inr (emit [Ev_again (Timer_watcher q)] (emit cs d1))))"
        using ok q(1) c False Sent cs by (auto simp: dns_server_tcp_respond_def Let_def d1_def split: sum.split)
      have log: "d_heap d1 = d_heap d" "d_calls d1 = d_calls d @ [Send (c_sock c) (take len (htons (word_of_nat (length resp))))]"
        by (simp_all add: d1_def)
      show ?thesis
        unfolding eq using removed [OF i1] removed [OF i2] sent log by (auto split: sum.split)
    next
      case (Send_error e)
      then show ?thesis
        using removed [OF inv refl, of "[]"] ok q c False by (auto simp: dns_server_tcp_respond_def Let_def)
    qed
    with mem q(1) answered show ?thesis by blast
  qed
qed

lemma remove_all_correct:
  "tcp_inv d ps \<Longrightarrow> \<exists>d'. returns (remove_all d) d' \<and> tcp_inv d' [] \<and> d_sock d' = d_sock d"
proof (induction ps arbitrary: d)
  case Nil
  then show ?case by (auto simp: tcp_inv_def remove_all.simps)
next
  case (Cons p ps)
  have p: "d_clients d = p" "p \<noteq> 0" using Cons.prems by (auto simp: tcp_inv_def)
  obtain c where c: "d_heap d p = Some c" using tcp_inv_heapD [OF Cons.prems] by auto
  from remove_client_correct [OF Cons.prems c] obtain d1
    where d1: "returns (remove_client p d) d1" "tcp_inv d1 ps" "d_sock d1 = d_sock d" by auto
  obtain d' where d': "returns (remove_all d1) d'" "tcp_inv d' []" "d_sock d' = d_sock d1"
    using Cons.IH [OF d1(2)] by blast
  have "returns (remove_all d) d'"
    using p d1(1) d'(1) by (subst remove_all.simps) simp
  with d' d1 show ?case by auto
qed

end
