(* ===== verification/Tcp_Framing.thy ===== *)
theory Tcp_Framing
  imports Tcp_Clients
begin

text \<open>
  What the receiving side of the TCP server does to the byte stream of a client. \<open>deframe\<close> specifies how
  RFC 1035 4.2.2 frames (two bytes of length in network order, then the message) are split off a stream;
  \<open>read_cb\<close> is shown to hand exactly these messages to the request callback, whatever the pieces in which
  the stream arrives, for streams whose length prefixes stay below 0xFF00. For prefixes of 0xFFFE and
  0xFFFF the 16 bit sum in \<open>get_dns_request\<close> wraps, and the same code reads outside its buffer or never
  returns.
\<close>

section \<open>Specification\<close>

function deframe :: "bytes \<Rightarrow> bytes list \<times> bytes" where
  "deframe [] = ([], [])"
| "deframe [b] = ([], [b])"
| "deframe (hi # lo # rest) =
     (let n = unat (ntohs hi lo)
      in if length rest < n then ([], hi # lo # rest)
         else (let (reqs, left) = deframe (drop n rest) in (take n rest # reqs, left)))"
  by pat_completeness auto
termination
  by (relation "measure length") auto

definition frame :: "bytes \<Rightarrow> bytes" where
  "frame req = htons (word_of_nat (length req)) @ req"

text \<open>No frame of the stream starts with the byte 0xFF.\<close>

function sane :: "bytes \<Rightarrow> bool" where
  "sane [] = True"
| "sane [b] = (b \<noteq> 255)"
| "sane (hi # lo # rest) =
     (hi \<noteq> 255 \<and>
      (let n = unat (ntohs hi lo) in length rest < n \<or> sane (drop n rest)))"
  by pat_completeness auto
termination
  by (relation "measure length") auto

lemma sane_hd: "sane (b # bs) \<Longrightarrow> b \<noteq> 255"
  by (cases bs) auto

lemma deframe_left_length: "length (snd (deframe bs)) \<le> length bs"
  by (induction bs rule: deframe.induct) (auto simp: Let_def split: prod.splits)

lemma deframe_frames:
  assumes "\<forall>r \<in> set reqs. length r < 65536"
  shows "deframe (concat (map frame reqs)) = (reqs, [])"
  using assms
proof (induction reqs)
  case (Cons r reqs)
  obtain hi lo where h: "htons (word_of_nat (length r)) = [hi, lo]"
    by (simp add: htons_def)
  have "unat (ntohs hi lo) = length r"
    using ntohs_htons [OF h] Cons.prems by (simp add: unat_of_nat)
  then have n: "unat hi * 256 + unat lo = length r" by simp
  have "concat (map frame (r # reqs)) = hi # lo # (r @ concat (map frame reqs))"
    by (simp add: frame_def h)
  with Cons n show ?case by simp
qed simp

lemma deframe_append:
  "deframe (xs @ ys) =
     (fst (deframe xs) @ fst (deframe (snd (deframe xs) @ ys)), snd (deframe (snd (deframe xs) @ ys)))"
proof (induction xs rule: deframe.induct)
  case (3 hi lo rest)
  show ?case
  proof (cases "length rest < unat (ntohs hi lo)")
    case False
    then have "deframe ((hi # lo # rest) @ ys) =
        (let (reqs, left) = deframe (drop (unat (ntohs hi lo)) rest @ ys)
         in (take (unat (ntohs hi lo)) rest # reqs, left))"
      by (simp add: Let_def)
    with 3 [OF refl False] False show ?thesis
      by (auto simp: Let_def split: prod.splits)
  qed (simp add: Let_def)
qed auto

lemma sane_prefix: "sane (xs @ ys) \<Longrightarrow> sane xs"
proof (induction xs rule: sane.induct)
  case (2 b)
  then show ?case by (cases ys) auto
next
  case (3 hi lo rest)
  then show ?case by (cases "length rest < unat (ntohs hi lo)") (auto simp: Let_def)
qed simp

lemma sane_left: "sane (xs @ ys) \<Longrightarrow> sane (snd (deframe xs) @ ys)"
proof (induction xs rule: deframe.induct)
  case (3 hi lo rest)
  show ?case
  proof (cases "length rest < unat (ntohs hi lo)")
    case False
    with 3 show ?thesis by (auto simp: Let_def split: prod.splits)
  qed (use 3 in \<open>simp add: Let_def\<close>)
qed auto

section \<open>One request off the buffer\<close>

lemma small_prefix:
  assumes "hi \<noteq> (255::u8)"
  shows "unat (2 + ntohs hi lo :: u16) = 2 + (unat hi * 256 + unat lo)"
proof -
  have "unat hi \<noteq> 255" using assms by (simp add: wordsimps)
  then have "unat hi \<le> 254" using unat_byte_less [of hi] by linarith
  then have "2 + (unat hi * 256 + unat lo) < 65536"
    using unat_byte_less [of lo] by linarith
  then show ?thesis by (simp add: unat_word_ariths)
qed

lemma get_request_partial:
  assumes "c_input_buffer c = Some buf" "2 \<le> length buf" "buf ! 0 \<noteq> 255"
    and "unat (c_input_buffer_used c) < 2 + (unat (buf ! 0) * 256 + unat (buf ! 1))"
  shows "get_dns_request me c = Inr None"
  using assms by (simp add: get_dns_request_def Let_def wordsimps small_prefix)

lemma get_request_complete:
  assumes buf: "c_input_buffer c = Some buf" "buf ! 0 \<noteq> 255"
    and used: "unat (c_input_buffer_used c) \<le> length buf"
    and n: "n = unat (buf ! 0) * 256 + unat (buf ! 1)" "2 + n \<le> unat (c_input_buffer_used c)"
    and mem: "malloc_ok me n"
  shows "\<exists>c' u. get_dns_request me c = Inr (Some (take n (drop 2 buf), ntohs (buf ! 0) (buf ! 1), c')) \<and>
           unat u = unat (c_input_buffer_used c) - (2 + n) \<and>
           c' = c\<lparr>c_input_buffer := Some (take (unat u) (drop (2 + n) buf) @ drop (unat u) buf),
                  c_input_buffer_used := u\<rparr>"
proof -
  define q where "q = ntohs (buf ! 0) (buf ! 1)"
  define w where "w = 2 + q"
  have q: "unat q = n" by (simp add: q_def n(1))
  have w: "unat w = 2 + n" using small_prefix [OF buf(2)] by (simp add: w_def q_def n(1))
  have le: "\<not> c_input_buffer_used c < ucast w" using w n(2) by (simp add: wordsimps)
  define u where "u = c_input_buffer_used c - ucast w"
  have "ucast w \<le> c_input_buffer_used c" using w n(2) by (simp add: wordsimps)
  then have u: "unat u = unat (c_input_buffer_used c) - (2 + n)"
    using w by (simp add: u_def unat_sub)
  have "get_dns_request me c = Inr (Some (take n (drop 2 buf), q,
      c\<lparr>c_input_buffer := Some (take (unat u) (drop (2 + n) buf) @ drop (unat u) buf),
        c_input_buffer_used := u\<rparr>))"
    unfolding get_dns_request_def buf(1) option.case Let_def
      q_def [symmetric] w_def [symmetric] u_def [symmetric] q w
    using used n(2) mem le u by simp
  with u show ?thesis unfolding q_def by blast
qed

section \<open>The loop over the buffered requests\<close>

text \<open>A client with its buffer replaced, and the server after the loop.\<close>

definition with_buffer :: "tcp_client \<Rightarrow> bytes \<Rightarrow> u32 \<Rightarrow> tcp_client" where
  "with_buffer c buf u = c\<lparr>c_input_buffer := Some buf, c_input_buffer_used := u\<rparr>"

definition after_split :: "ptr \<Rightarrow> bool \<Rightarrow> tcp_client \<Rightarrow> dns_server_tcp \<Rightarrow> dns_server_tcp" where
  "after_split p again c d =
     (let d' = d\<lparr>d_heap := (d_heap d)(p \<mapsto> c)\<rparr> in if again then emit [Ev_again (Timer_watcher p)] d' else d')"

lemma with_buffer_id [simp]: "c_input_buffer c = Some buf \<Longrightarrow> with_buffer c buf (c_input_buffer_used c) = c"
  by (simp add: with_buffer_def)

lemma with_buffer_simps [simp]:
  "with_buffer (with_buffer c b u) b' u' = with_buffer c b' u'"
  "c_raddr (with_buffer c b u) = c_raddr c" "c_input_buffer (with_buffer c b u) = Some b"
  "c_input_buffer_used (with_buffer c b u) = u" "c_next (with_buffer c b u) = c_next c"
  "c_input_buffer_size (with_buffer c b u) = c_input_buffer_size c"
  by (simp_all add: with_buffer_def)

lemma split_partial:
  assumes "d_heap d p = Some c" "get_dns_request me c = Inr None"
  shows "returns (split_requests me cb p rc d s) (after_split p rc c d, s)"
proof -
  have "d\<lparr>d_heap := (d_heap d)(p \<mapsto> c)\<rparr> = d" using assms(1) by (simp add: fun_upd_idem)
  then show ?thesis
    using assms by (subst split_requests.simps) (simp add: after_split_def Let_def)
qed

lemma split_requests_deframe:
  assumes "d_heap d p = Some c" "c_input_buffer c = Some buf" "2 \<le> length buf" "buf ! 0 \<noteq> 255"
    and "unat (c_input_buffer_used c) \<le> length buf" "take (unat (c_input_buffer_used c)) buf = bs" "sane bs"
    and "\<forall>r \<in> set (fst (deframe bs)). DNS_HEADER_LENGTH \<le> length r" "\<And>n. malloc_ok me n"
    and "\<And>req s. cb True (c_raddr c) req s = Inr (f req s)"
  shows "\<exists>buf' u. returns (split_requests me cb p rc d s)
             (after_split p (rc \<or> fst (deframe bs) \<noteq> []) (with_buffer c buf' u) d, fold f (fst (deframe bs)) s) \<and>
           length buf' = length buf \<and> take (unat u) buf' = snd (deframe bs) \<and> unat u = length (snd (deframe bs))"
  using assms
proof (induction bs arbitrary: c d buf s rc rule: deframe.induct)
  case 1
  then have "unat (c_input_buffer_used c) = 0" by auto
  then have "get_dns_request me c = Inr None"
    using 1 by (intro get_request_partial [of c buf]) auto
  from split_partial [OF 1(1) this] 1(2,5,6) show ?case
    by (intro exI [of _ buf] exI [of _ "c_input_buffer_used c"]) auto
next
  case (2 b)
  have used: "unat (c_input_buffer_used c) = 1"
    using arg_cong [OF 2(6), of length] 2(5) by simp
  then have "get_dns_request me c = Inr None"
    using 2 by (intro get_request_partial [of c buf]) auto
  from split_partial [OF 2(1) this] 2(2,5,6) show ?case
    by (intro exI [of _ buf] exI [of _ "c_input_buffer_used c"]) (use used in auto)
next
  case (3 hi lo rest)
  note prems = 3(2-)
  have used: "unat (c_input_buffer_used c) = 2 + length rest"
    using arg_cong [OF prems(6), of length] prems(5) by simp
  then have buf: "buf = hi # lo # rest @ drop (unat (c_input_buffer_used c)) buf"
    using prems(6) append_take_drop_id [of "unat (c_input_buffer_used c)" buf] by simp
  define n where "n = unat (ntohs hi lo)"
  have nth: "buf ! 0 = hi" "buf ! 1 = lo" by (subst buf, simp)+
  have n: "n = unat (buf ! 0) * 256 + unat (buf ! 1)" by (simp only: n_def nth unat_ntohs)
  show ?case
  proof (cases "length rest < n")
    case True
    then have "get_dns_request me c = Inr None"
      using prems used n by (intro get_request_partial [of c buf]) auto
    from split_partial [OF prems(1) this] show ?thesis
      using prems(2,6) used True by (intro exI [of _ buf] exI [of _ "c_input_buffer_used c"])
        (auto simp: n_def Let_def)
  next
    case False
    then have fits: "2 + n \<le> unat (c_input_buffer_used c)" using used by simp
    obtain c' u where get: "get_dns_request me c = Inr (Some (take n (drop 2 buf), ntohs (buf ! 0) (buf ! 1), c'))"
      and u: "unat u = unat (c_input_buffer_used c) - (2 + n)"
      and c': "c' = with_buffer c (take (unat u) (drop (2 + n) buf) @ drop (unat u) buf) u"
      using get_request_complete [OF prems(2,4,5) n fits prems(9)] unfolding with_buffer_def by blast
    define buf1 where "buf1 = take (unat u) (drop (2 + n) buf) @ drop (unat u) buf"
    have c1: "c' = with_buffer c buf1 u" by (simp only: c' buf1_def)
    have len1: "length buf1 = length buf" using u used prems(5) by (simp add: buf1_def)
    have req: "take n (drop 2 buf) = take n rest"
      using False by (subst buf) simp
    have "take (unat u) buf1 = take (unat u) (drop (2 + n) buf)"
      using u used prems(5) by (simp add: buf1_def)
    also have "\<dots> = drop (2 + n) (take (unat u + (2 + n)) buf)" by (simp only: take_drop)
    also have "unat u + (2 + n) = unat (c_input_buffer_used c)" using u fits by simp
    finally have left: "take (unat u) buf1 = drop n rest" using prems(6) by simp
    have first: "buf1 ! 0 \<noteq> 255"
    proof (cases "unat u = 0")
      case True
      then show ?thesis using prems(4) by (simp add: buf1_def)
    next
      case pos: False
      then have "buf1 ! 0 = drop n rest ! 0"
        using left by (metis neq0_conv nth_take)
      moreover have "drop n rest \<noteq> []" using pos u used by auto
      moreover have "sane (drop n rest)" using prems(7) False by (simp add: n_def Let_def)
      ultimately show ?thesis by (metis hd_conv_nth list.collapse sane_hd)
    qed
    define d1 where "d1 = d\<lparr>d_heap := (d_heap d)(p \<mapsto> c')\<rparr>"
    have de: "deframe (hi # lo # rest) =
        (take n rest # fst (deframe (drop n rest)), snd (deframe (drop n rest)))"
      using False by (simp add: n_def Let_def split: prod.splits)
    have ge12: "\<not> unat (ntohs (buf ! 0) (buf ! 1)) < DNS_HEADER_LENGTH"
      using prems(8) False unfolding de nth n_def [symmetric] by simp
    have step: "split_requests me cb p rc d s = split_requests me cb p True d1 (f (take n rest) s)"
      using prems(1,10) get ge12
      by (subst split_requests.simps) (simp add: req d1_def Let_def)
    have "\<exists>buf' v. returns (split_requests me cb p True d1 (f (take n rest) s))
            (after_split p (True \<or> fst (deframe (drop n rest)) \<noteq> []) (with_buffer c' buf' v) d1,
             fold f (fst (deframe (drop n rest))) (f (take n rest) s)) \<and>
          length buf' = length buf1 \<and> take (unat v) buf' = snd (deframe (drop n rest)) \<and>
          unat v = length (snd (deframe (drop n rest)))"
    proof (rule 3(1) [OF n_def])
      show "\<forall>r \<in> set (fst (deframe (drop n rest))). DNS_HEADER_LENGTH \<le> length r"
        using prems(8) unfolding de by simp
      show "sane (drop n rest)" using prems(7) False by (simp add: n_def Let_def)
    qed (use False prems first left len1 u used in \<open>simp_all add: d1_def c1\<close>)
    then obtain buf' v where ih: "returns (split_requests me cb p True d1 (f (take n rest) s))
            (after_split p True (with_buffer c' buf' v) d1,
             fold f (fst (deframe (drop n rest))) (f (take n rest) s))"
      "length buf' = length buf1" "take (unat v) buf' = snd (deframe (drop n rest))"
      "unat v = length (snd (deframe (drop n rest)))" by auto
    have "after_split p True (with_buffer c' buf' v) d1 = after_split p True (with_buffer c buf' v) d"
      by (simp add: after_split_def d1_def c1 Let_def emit_def)
    with step ih len1 show ?thesis
      unfolding de by (intro exI [of _ buf'] exI [of _ v]) simp
  qed
qed

section \<open>Room for the received data\<close>

lemma grow_pow:
  assumes "k \<le> 10" "unat sz = 64 * 2 ^ k" "unat needed \<le> 65533"
  shows "\<exists>r. returns (grow needed sz) r \<and> unat needed \<le> unat r \<and> 64 \<le> unat r \<and> unat r \<le> 65536 \<and>
           (unat r = unat sz \<or> unat r < 2 * unat needed)"
  using assms(1,2)
proof (induction "10 - k" arbitrary: k sz)
  case 0
  then have "unat sz = 65536" by simp
  then have "\<not> sz < needed" using assms(3) by (simp add: wordsimps)
  then show ?case using \<open>unat sz = 65536\<close> assms(3) by (simp add: grow.simps)
next
  case (Suc m)
  then have k: "k \<le> 9" by simp
  then have "(2::nat) ^ k \<le> 2 ^ 9" by (intro power_increasing) simp_all
  then have le: "unat sz \<le> 32768" using Suc.prems(2) by simp
  show ?case
  proof (cases "sz < needed")
    case True
    have dbl: "unat (sz * 2) = 64 * 2 ^ Suc k"
      using le Suc.prems(2) by (simp add: unat_word_ariths)
    have "grow needed sz = grow needed (sz * 2)"
      using True le by (subst grow.simps) (simp add: TCP_DNS_MAX_PAYLOAD_def wordsimps)
    moreover have next_k: "m = 10 - Suc k" using Suc.hyps(2) by simp
    moreover obtain r where "returns (grow needed (sz * 2)) r" "unat needed \<le> unat r" "64 \<le> unat r"
      "unat r \<le> 65536" "unat r = unat (sz * 2) \<or> unat r < 2 * unat needed"
      using Suc.hyps(1) [OF next_k _ dbl] k by auto
    moreover have "unat (sz * 2) < 2 * unat needed"
      using True dbl Suc.prems(2) by (simp add: wordsimps)
    ultimately show ?thesis by (intro exI [of _ r]) auto
  next
    case False
    then have "returns (grow needed sz) sz" by (subst grow.simps) simp
    moreover have "64 \<le> unat sz" using Suc.prems(2) by simp
    moreover have "unat needed \<le> unat sz" using False by (simp add: wordsimps)
    ultimately show ?thesis using le by (intro exI [of _ sz]) simp
  qed
qed

lemma grow_64:
  "unat needed \<le> 65533 \<Longrightarrow>
   \<exists>r. returns (grow needed 64) r \<and> unat needed \<le> unat r \<and> 64 \<le> unat r \<and> unat r \<le> 65536 \<and>
       (unat r = 64 \<or> unat r < 2 * unat needed)"
  using grow_pow [of 0 64 needed] by simp

text \<open>The bytes of the stream that wait in a client's buffer.\<close>

definition pending :: "tcp_client \<Rightarrow> bytes" where
  "pending c = (case c_input_buffer c of None \<Rightarrow> [] | Some b \<Rightarrow> take (unat (c_input_buffer_used c)) b)"

lemma length_pending: "client_ok c \<Longrightarrow> length (pending c) = unat (c_input_buffer_used c)"
  by (auto simp: client_ok_def pending_def split: option.splits)

lemma ensure_space_correct:
  assumes ok: "client_ok c" and len: "0 < len" and mem: "\<And>n. malloc_ok me n"
    and needed: "unat needed = unat (c_input_buffer_used c) + len" "unat needed \<le> 65533"
  shows "\<exists>b sz. returns (ensure_space me len needed c) (c\<lparr>c_input_buffer := Some b, c_input_buffer_size := sz\<rparr>) \<and>
           length b = unat sz \<and> unat needed \<le> unat sz \<and> 64 \<le> unat sz \<and> unat sz \<le> 65536 \<and>
           take (unat (c_input_buffer_used c)) b = pending c"
proof (cases "unat (c_input_buffer_size c - c_input_buffer_used c) < len")
  case True
  obtain sz where sz: "returns (grow needed 64) sz" "unat needed \<le> unat sz" "64 \<le> unat sz" "unat sz \<le> 65536"
    using grow_64 [OF needed(2)] by blast
  define old where "old = (case c_input_buffer c of None \<Rightarrow> [] | Some b \<Rightarrow> b)"
  define b where "b = take (unat sz) old @ map (junk me) [length (take (unat sz) old)..<unat sz]"
  have "returns (ensure_space me len needed c) (c\<lparr>c_input_buffer := Some b, c_input_buffer_size := sz\<rparr>)"
    using True sz(1) mem by (simp add: ensure_space_def realloc_buf_def b_def old_def Let_def)
  moreover have "length b = unat sz" by (simp add: b_def)
  moreover have "take (unat (c_input_buffer_used c)) b = pending c"
    using ok sz(2) needed(1)
    by (auto simp: b_def old_def pending_def client_ok_def min_def split: option.splits)
  ultimately show ?thesis using sz by blast
next
  case False
  then obtain b where b: "c_input_buffer c = Some b"
    using ok len by (cases "c_input_buffer c") (auto simp: client_ok_def)
  with ok have b': "length b = unat (c_input_buffer_size c)" "64 \<le> length b" "length b \<le> 65536"
    "unat (c_input_buffer_used c) \<le> length b" by (auto simp: client_ok_def)
  then have "unat (c_input_buffer_size c - c_input_buffer_used c) = length b - unat (c_input_buffer_used c)"
    by (simp add: unat_sub wordsimps)
  then have fits: "unat needed \<le> length b" using False needed(1) b'(4) by linarith
  have "c\<lparr>c_input_buffer := Some b, c_input_buffer_size := c_input_buffer_size c\<rparr> = c"
    using b by simp
  then have "returns (ensure_space me len needed c) (c\<lparr>c_input_buffer := Some b, c_input_buffer_size := c_input_buffer_size c\<rparr>)"
    using False by (simp add: ensure_space_def Let_def)
  moreover have "take (unat (c_input_buffer_used c)) b = pending c" by (simp add: pending_def b)
  ultimately show ?thesis using b' fits by metis
qed

lemma append_data_correct:
  assumes "length b = unat sz" "unat needed = unat (c_input_buffer_used c) + length data"
    and "unat needed \<le> unat sz" "take (unat (c_input_buffer_used c)) b = pending c"
  shows "\<exists>b'. append_data data needed (c\<lparr>c_input_buffer := Some b, c_input_buffer_size := sz\<rparr>) =
             Inr (c\<lparr>c_input_buffer := Some b', c_input_buffer_size := sz, c_input_buffer_used := needed\<rparr>) \<and>
           length b' = unat sz \<and> take (unat needed) b' = pending c @ data"
proof -
  let ?b = "pending c @ data @ drop (unat needed) b"
  have "length (pending c) = unat (c_input_buffer_used c)"
    using arg_cong [OF assms(4), of length] assms(1-3) by simp
  then have "length ?b = unat sz" "take (unat needed) ?b = pending c @ data"
    using assms(1-3) by simp_all
  moreover have "append_data data needed (c\<lparr>c_input_buffer := Some b, c_input_buffer_size := sz\<rparr>) =
      Inr (c\<lparr>c_input_buffer := Some ?b, c_input_buffer_size := sz, c_input_buffer_used := needed\<rparr>)"
    using assms by (simp add: append_data_def Let_def)
  ultimately show ?thesis by blast
qed

section \<open>The read callback\<close>

text \<open>Data that fits passes the size checks.\<close>

lemma read_cb_accepts:
  assumes ok: "client_ok c" and p: "d_heap d p = Some c"
    and data: "data \<noteq> []" "length (pending c) + length data \<le> 65533"
  obtains needed where "unat needed = unat (c_input_buffer_used c) + length data" "unat needed \<le> 65533"
    "read_cb me cb p (Received data) d s =
       bind_prog (ensure_space me (length data) needed c)
         (\<lambda>c1. case append_data data needed c1 of
                 Inl e \<Rightarrow> Some (Inl e)
               | Inr c2 \<Rightarrow> split_requests me cb p False (d\<lparr>d_heap := (d_heap d)(p \<mapsto> c2)\<rparr>) s)"
proof -
  define needed where "needed = c_input_buffer_used c + word_of_nat (length data)"
  have used: "length (pending c) = unat (c_input_buffer_used c)" by (rule length_pending [OF ok])
  have wn: "unat (word_of_nat (length data) :: u32) = length data"
    using data(2) by (simp add: unat_of_nat)
  have need: "unat needed = unat (c_input_buffer_used c) + length data"
    using data(2) used wn by (simp add: needed_def unat_word_ariths)
  have need_le: "unat needed \<le> 65533" using need data(2) used by simp
  have "unat (UINT16_MAX - word_of_nat (length data)) = 65535 - length data"
    using wn data(2) by (simp add: unat_sub wordsimps UINT16_MAX_def)
  then have guard: "\<not> UINT16_MAX - word_of_nat (length data) < c_input_buffer_used c"
    using data(2) used by (simp add: wordsimps)
  have guard2: "\<not> TCP_DNS_MAX_PAYLOAD < needed"
    using need_le by (simp add: wordsimps TCP_DNS_MAX_PAYLOAD_def)
  show thesis
    using that [OF need need_le] p data guard guard2
    by (simp add: read_cb_def Let_def needed_def [symmetric])
qed

text \<open>
  Data that fits the limit is split exactly as \<open>deframe\<close> says; the client keeps what is left of the
  stream, and nothing else of the server changes but the restart of the idle timer.
\<close>

lemma read_cb_deframe:
  assumes inv: "tcp_inv d ps" and p: "d_heap d p = Some c"
    and data: "data \<noteq> []" "length (pending c) + length data \<le> 65533"
    and stream: "sane (pending c @ data)"
      "\<forall>r \<in> set (fst (deframe (pending c @ data))). DNS_HEADER_LENGTH \<le> length r"
    and env: "\<And>n. malloc_ok me n" "\<And>req s. cb True (c_raddr c) req s = Inr (f req s)"
  shows "\<exists>d' c'. returns (read_cb me cb p (Received data) d s) (d', fold f (fst (deframe (pending c @ data))) s) \<and>
           tcp_inv d' ps \<and> d_heap d' = (d_heap d)(p \<mapsto> c') \<and>
           pending c' = snd (deframe (pending c @ data)) \<and> c_raddr c' = c_raddr c \<and>
           d_client_limit d' = d_client_limit d"
proof -
  let ?bs = "pending c @ data"
  have ok: "client_ok c" and mem: "p \<in> set ps"
    using inv p by (auto simp: tcp_inv_def)
  have used: "length (pending c) = unat (c_input_buffer_used c)" by (rule length_pending [OF ok])
  obtain needed where need: "unat needed = unat (c_input_buffer_used c) + length data"
    and need_le: "unat needed \<le> 65533"
    and rd: "read_cb me cb p (Received data) d s =
       bind_prog (ensure_space me (length data) needed c)
         (\<lambda>c1. case append_data data needed c1 of
                 Inl e \<Rightarrow> Some (Inl e)
               | Inr c2 \<Rightarrow> split_requests me cb p False (d\<lparr>d_heap := (d_heap d)(p \<mapsto> c2)\<rparr>) s)"
    by (rule read_cb_accepts [OF ok p data, where me = me and cb = cb and s = s])
  obtain b sz where es: "returns (ensure_space me (length data) needed c) (c\<lparr>c_input_buffer := Some b, c_input_buffer_size := sz\<rparr>)"
      "length b = unat sz" "unat needed \<le> unat sz" "64 \<le> unat sz" "unat sz \<le> 65536"
      "take (unat (c_input_buffer_used c)) b = pending c"
    using ensure_space_correct [OF ok _ env(1) need need_le] data(1) by auto
  obtain b' where ap: "append_data data needed (c\<lparr>c_input_buffer := Some b, c_input_buffer_size := sz\<rparr>) =
        Inr (c\<lparr>c_input_buffer := Some b', c_input_buffer_size := sz, c_input_buffer_used := needed\<rparr>)"
      "length b' = unat sz" "take (unat needed) b' = ?bs"
    using append_data_correct [OF es(2) need es(3,6)] by blast
  define c2 where "c2 = c\<lparr>c_input_buffer := Some b', c_input_buffer_size := sz, c_input_buffer_used := needed\<rparr>"
  define d2 where "d2 = d\<lparr>d_heap := (d_heap d)(p \<mapsto> c2)\<rparr>"
  have run: "read_cb me cb p (Received data) d s = split_requests me cb p False d2 s"
    using es(1) ap(1) by (simp add: rd d2_def c2_def)
  have "b' ! 0 \<noteq> 255"
  proof -
    have "0 < unat needed" using need data(1) by simp
    then have "b' ! 0 = ?bs ! 0" using ap(3) by (metis nth_take)
    moreover have "?bs \<noteq> []" using data(1) by simp
    ultimately show ?thesis using stream(1) sane_hd by (metis hd_conv_nth list.collapse)
  qed
  then obtain buf u where sp: "returns (split_requests me cb p False d2 s)
        (after_split p (fst (deframe ?bs) \<noteq> []) (with_buffer c2 buf u) d2, fold f (fst (deframe ?bs)) s)"
      "length buf = unat sz" "take (unat u) buf = snd (deframe ?bs)" "unat u = length (snd (deframe ?bs))"
    using split_requests_deframe [of d2 p c2 b' ?bs me cb f False s] ap es stream env
    by (auto simp: d2_def c2_def)
  define c' where "c' = with_buffer c2 buf u"
  have "unat u \<le> unat needed"
    using sp(4) deframe_left_length [of ?bs] need used by simp
  then have ok': "client_ok c'"
    using sp(2) es need_le by (simp add: c'_def client_ok_def c2_def)
  have "tcp_inv (d\<lparr>d_heap := (d_heap d)(p \<mapsto> c')\<rparr>) ps"
    using inv p ok' by (intro tcp_inv_client [where c = c]) (simp_all add: c'_def c2_def)
  moreover have "tcp_inv (emit [Ev_again (Timer_watcher p)] (d\<lparr>d_heap := (d_heap d)(p \<mapsto> c')\<rparr>)) ps"
    using calculation mem by (intro tcp_inv_emit) auto
  ultimately have "tcp_inv (after_split p a c' d2) ps" for a
    by (simp add: after_split_def d2_def Let_def emit_def)
  moreover have "pending c' = snd (deframe ?bs)" using sp(3) by (simp add: pending_def c'_def)
  moreover have "d_heap (after_split p a c' d2) = (d_heap d)(p \<mapsto> c')" for a
    by (simp add: after_split_def d2_def Let_def)
  moreover have "d_client_limit (after_split p a c' d2) = d_client_limit d" for a
    by (simp add: after_split_def d2_def Let_def)
  ultimately show ?thesis
    using run sp(1) unfolding c'_def [symmetric]
    by (intro exI [of _ "after_split p (fst (deframe ?bs) \<noteq> []) c' d2"] exI [of _ c'])
      (simp add: c'_def c2_def)
qed

section \<open>A whole stream in pieces\<close>

fun receive_all ::
  "mem_env \<Rightarrow> 's req_cb \<Rightarrow> ptr \<Rightarrow> bytes list \<Rightarrow> dns_server_tcp \<Rightarrow> 's \<Rightarrow> (dns_server_tcp \<times> 's) prog" where
  "receive_all me cb p [] d s = Some (Inr (d, s))"
| "receive_all me cb p (x # xs) d s =
     bind_prog (read_cb me cb p (Received x) d s) (\<lambda>(d', s'). receive_all me cb p xs d' s')"

text \<open>No prefix of the stream leaves more than \<open>m\<close> bytes of an incomplete message.\<close>

definition left_bounded :: "nat \<Rightarrow> bytes \<Rightarrow> bool" where
  "left_bounded m bs \<longleftrightarrow> (\<forall>n. length (snd (deframe (take n bs))) \<le> m)"

lemma deframe_left_idem: "deframe (snd (deframe bs)) = ([], snd (deframe bs))"
proof (induction bs rule: deframe.induct)
  case (3 hi lo rest)
  show ?case
  proof (cases "length rest < unat (ntohs hi lo)")
    case False
    then have "snd (deframe (hi # lo # rest)) = snd (deframe (drop (unat (ntohs hi lo)) rest))"
      by (simp add: Let_def split: prod.splits)
    with 3 [OF refl False] show ?thesis by (simp only:)
  qed (simp add: Let_def)
qed simp_all

lemma left_bounded_left:
  assumes "left_bounded m (xs @ ys)"
  shows "left_bounded m (snd (deframe xs) @ ys)"
  unfolding left_bounded_def
proof
  fix n
  have xs: "length (snd (deframe xs)) \<le> m"
    using spec [OF assms [unfolded left_bounded_def], of "length xs"] by simp
  show "length (snd (deframe (take n (snd (deframe xs) @ ys)))) \<le> m"
  proof (cases "n \<le> length (snd (deframe xs))")
    case True
    then have "length (take n (snd (deframe xs) @ ys)) \<le> m" using xs by simp
    then show ?thesis using deframe_left_length le_trans by blast
  next
    case False
    define k where "k = n - length (snd (deframe xs))"
    have split: "take n (snd (deframe xs) @ ys) = snd (deframe xs) @ take k ys"
      using False by (simp add: k_def)
    have same: "snd (deframe (snd (deframe xs) @ take k ys)) = snd (deframe (xs @ take k ys))"
      by (simp only: deframe_append [of xs "take k ys"] snd_conv)
    have whole: "xs @ take k ys = take (length xs + k) (xs @ ys)" by simp
    have "length (snd (deframe (take (length xs + k) (xs @ ys)))) \<le> m"
      using assms unfolding left_bounded_def by blast
    then show ?thesis by (simp only: split same whole)
  qed
qed

lemma receive_all_deframe:
  assumes "tcp_inv d ps" "d_heap d p = Some c" "deframe (pending c) = ([], pending c)"
    and "\<forall>x \<in> set xs. x \<noteq> [] \<and> length x \<le> DNS_REQUEST_BUFFER_SIZE"
    and "sane (pending c @ concat xs)" "left_bounded 61436 (pending c @ concat xs)"
    and "\<forall>r \<in> set (fst (deframe (pending c @ concat xs))). DNS_HEADER_LENGTH \<le> length r"
    and "\<And>n. malloc_ok me n" "\<And>req s. cb True (c_raddr c) req s = Inr (f req s)"
  shows "\<exists>d' c'. returns (receive_all me cb p xs d s) (d', fold f (fst (deframe (pending c @ concat xs))) s) \<and>
           tcp_inv d' ps \<and> d_heap d' p = Some c' \<and> pending c' = snd (deframe (pending c @ concat xs))"
  using assms
proof (induction xs arbitrary: d c s)
  case Nil
  then show ?case by simp
next
  case (Cons x xs)
  let ?a = "pending c @ x"
  have de: "deframe (pending c @ concat (x # xs)) =
      (fst (deframe ?a) @ fst (deframe (snd (deframe ?a) @ concat xs)), snd (deframe (snd (deframe ?a) @ concat xs)))"
    using deframe_append [of ?a "concat xs"] by simp
  have "length (snd (deframe (take (length (pending c)) (pending c @ concat (x # xs))))) \<le> 61436"
    using Cons.prems(6) unfolding left_bounded_def by blast
  then have "length (pending c) \<le> 61436" using Cons.prems(3) by simp
  then have room: "length (pending c) + length x \<le> 65533"
    using Cons.prems(4) by (simp add: DNS_REQUEST_BUFFER_SIZE_def)
  have sane_a: "sane ?a" using Cons.prems(5) sane_prefix [of ?a "concat xs"] by simp
  obtain d1 c1 where d1: "returns (read_cb me cb p (Received x) d s) (d1, fold f (fst (deframe ?a)) s)"
      "tcp_inv d1 ps" "d_heap d1 = (d_heap d)(p \<mapsto> c1)" "pending c1 = snd (deframe ?a)" "c_raddr c1 = c_raddr c"
    using read_cb_deframe [where cb = cb and f = f and me = me and s = s,
        OF Cons.prems(1,2) _ room sane_a _ Cons.prems(8,9)] Cons.prems(4,7)
    unfolding de by auto
  have "\<exists>d' c'. returns (receive_all me cb p xs d1 (fold f (fst (deframe ?a)) s))
          (d', fold f (fst (deframe (pending c1 @ concat xs))) (fold f (fst (deframe ?a)) s)) \<and>
        tcp_inv d' ps \<and> d_heap d' p = Some c' \<and> pending c' = snd (deframe (pending c1 @ concat xs))"
  proof (rule Cons.IH [OF d1(2)])
    show "sane (pending c1 @ concat xs)"
      using sane_left [of ?a "concat xs"] Cons.prems(5) d1(4) by simp
    show "left_bounded 61436 (pending c1 @ concat xs)"
      using left_bounded_left [of _ ?a "concat xs"] Cons.prems(6) d1(4) by simp
    show "\<forall>r \<in> set (fst (deframe (pending c1 @ concat xs))). DNS_HEADER_LENGTH \<le> length r"
      using Cons.prems(7) d1(4) unfolding de by simp
  qed (use Cons.prems d1 in \<open>simp_all add: deframe_left_idem\<close>)
  then show ?case
    using d1 unfolding de by auto
qed

end
