(* ===== verification/Tcp_Server.thy ===== *)
theory Tcp_Server
  imports Tcp_Framing
begin

text \<open>
  The TCP server as a transition system over the callbacks that libev runs, its invariant in every
  reachable state, and the properties of receiving, answering and shutting down.
\<close>

section \<open>Steps\<close>

text \<open>
  libev runs a callback only while its watcher is active; \<open>calloc\<close> gives a pointer that is neither null
  nor in use. Results of system calls are arbitrary. Answers come from the HTTPS side at any time.
\<close>

inductive tcp_step :: "'s req_cb \<Rightarrow> dns_server_tcp \<times> 's \<Rightarrow> dns_server_tcp \<times> 's \<Rightarrow> bool" for cb where
  accept: "ev_active (d_calls d) Accept_watcher \<Longrightarrow> p \<noteq> 0 \<Longrightarrow> p \<notin> dom (d_heap d) \<Longrightarrow>
     accept_cb r uninit (Some p) d = Inr d' \<Longrightarrow> tcp_step cb (d, s) (d', s)"
| read: "ev_active (d_calls d) (Read_watcher p) \<Longrightarrow>
     returns (read_cb me cb p r d s) (d', s') \<Longrightarrow> tcp_step cb (d, s) (d', s')"
| timeout: "ev_active (d_calls d) (Timer_watcher p) \<Longrightarrow>
     returns (tcp_timer_cb p d) d' \<Longrightarrow> tcp_step cb (d, s) (d', s)"
| respond: "returns (dns_server_tcp_respond pr f raddr resp d) d' \<Longrightarrow> tcp_step cb (d, s) (d', s)"

definition tcp_init :: "dns_server_tcp \<times> 's \<Rightarrow> bool" where
  "tcp_init ds \<longleftrightarrow> (\<exists>a le limit. 0 < limit \<and> dns_server_tcp_create a le limit = Inr (fst ds))"

section \<open>Reading keeps the invariant\<close>

lemma get_dns_request_ok:
  assumes "client_ok c" "get_dns_request me c = Inr (Some (req, n, c'))"
  shows "client_ok c' \<and> c_next c' = c_next c \<and> c_raddr c' = c_raddr c"
proof -
  obtain buf where buf: "c_input_buffer c = Some buf"
    using assms(2) by (cases "c_input_buffer c") (auto simp: get_dns_request_def)
  define w where "w = (ucast (2 + ntohs (buf ! 0) (buf ! 1)) :: u32)"
  define u where "u = c_input_buffer_used c - w"
  from assms(2) have c': "\<not> c_input_buffer_used c < w"
      "c' = c\<lparr>c_input_buffer := Some (take (unat u) (drop (unat (2 + ntohs (buf ! 0) (buf ! 1))) buf) @ drop (unat u) buf),
              c_input_buffer_used := u\<rparr>"
      "unat (2 + ntohs (buf ! 0) (buf ! 1)) + unat u \<le> length buf"
    by (auto simp: get_dns_request_def buf Let_def w_def u_def split: if_splits)
  have "unat u \<le> unat (c_input_buffer_used c)"
    using c'(1) by (simp add: u_def unat_sub not_less)
  then show ?thesis
    using assms(1) c'(3) by (auto simp: client_ok_def buf c'(2))
qed

definition client_step_ok :: "ptr list \<Rightarrow> ptr \<Rightarrow> dns_server_tcp \<Rightarrow> bool" where
  "client_step_ok ps p d' \<longleftrightarrow> tcp_inv d' ps \<or> tcp_inv d' (remove1 p ps)"

lemma remove_client_step:
  assumes "tcp_inv d ps" "p \<in> set ps" "returns (remove_client p d) d'"
  shows "client_step_ok ps p d'"
proof -
  obtain c where "d_heap d p = Some c" using tcp_inv_heapD [OF assms(1,2)] by blast
  from remove_client_correct [OF assms(1) this] assms(3) show ?thesis
    by (auto simp: client_step_ok_def)
qed

lemma split_requests_step:
  assumes "split_requests me cb p rc d s = Some r"
  shows "\<forall>ps d' s'. tcp_inv d ps \<longrightarrow> p \<in> set ps \<longrightarrow> r = Inr (d', s') \<longrightarrow> client_step_ok ps p d'"
proof (rule split_requests.raw_induct [where P = "\<lambda>me cb p rc d s r. \<forall>ps d' s'. tcp_inv d ps \<longrightarrow> p \<in> set ps \<longrightarrow>
    r = Inr (d', s') \<longrightarrow> client_step_ok ps p d'", OF _ assms], goal_cases)
  case (1 again me cb p rc d s r)
  show ?case
  proof (intro allI impI)
    fix ps d' s'
    assume inv: "tcp_inv d ps" and p: "p \<in> set ps" and r: "r = Inr (d', s')"
    obtain c where c: "d_heap d p = Some c" "client_ok c" using tcp_inv_heapD [OF inv p] by blast
    show "client_step_ok ps p d'"
    proof (cases "get_dns_request me c")
      case (Inl e)
      with 1(2) c r show ?thesis by simp
    next
      case (Inr got)
      show ?thesis
      proof (cases got)
        case None
        have "tcp_inv (emit [Ev_again (Timer_watcher p)] d) ps"
          using p by (intro tcp_inv_emit [OF inv]) auto
        with 1(2) c r Inr None inv show ?thesis by (auto simp: client_step_ok_def split: if_splits)
      next
        case (Some x)
        obtain req n c' where x: "x = (req, n, c')" by (cases x)
        have c': "client_ok c' \<and> c_next c' = c_next c \<and> c_raddr c' = c_raddr c"
          using get_dns_request_ok [OF c(2)] Inr Some x by blast
        define d1 where "d1 = d\<lparr>d_heap := (d_heap d)(p \<mapsto> c')\<rparr>"
        have inv1: "tcp_inv d1 ps"
          unfolding d1_def using inv c c' by (intro tcp_inv_client [where c = c]) simp_all
        show ?thesis
        proof (cases "unat n < DNS_HEADER_LENGTH")
          case True
          with 1(2) c r Inr Some x have "returns (remove_client p d1) d'"
            by (auto simp: d1_def Let_def dest!: sym [of _ "Some (Inr _)"])
          then show ?thesis by (rule remove_client_step [OF inv1 p])
        next
          case False
          with 1(2) c r Inr Some x obtain s1 where "again me cb p True d1 s1 = Some (Inr (d', s'))"
            by (auto simp: d1_def Let_def split: sum.splits)
          from 1(1) [OF this] inv1 p show ?thesis by blast
        qed
      qed
    qed
  qed
qed

lemma ensure_space_ignores_malloc:
  "returns (ensure_space me len needed c) x \<Longrightarrow>
   returns (ensure_space (me\<lparr>malloc_ok := \<lambda>_. True\<rparr>) len needed c) x"
  by (auto simp: ensure_space_def realloc_buf_def Let_def split: if_splits option.splits)

lemma read_cb_step:
  assumes inv: "tcp_inv d ps" and p: "p \<in> set ps" and ret: "returns (read_cb me cb p r d s) (d', s')"
  shows "client_step_ok ps p d'"
proof -
  obtain c where c: "d_heap d p = Some c" "client_ok c" using tcp_inv_heapD [OF inv p] by blast
  have rm: "client_step_ok ps p d'" if "returns (remove_client p d) d'"
    using remove_client_step [OF inv p that] .
  show ?thesis
  proof (cases r)
    case (Recv_error e)
    with ret c rm inv show ?thesis
      by (auto simp: read_cb_def client_step_ok_def split: if_splits)
  next
    case (Received data)
    define needed where "needed = c_input_buffer_used c + word_of_nat (length data)"
    consider "returns (remove_client p d) d'"
      | "data \<noteq> []" "length data \<le> 65535" "c_input_buffer_used c \<le> UINT16_MAX - word_of_nat (length data)"
        "needed \<le> TCP_DNS_MAX_PAYLOAD"
        "returns (bind_prog (ensure_space me (length data) needed c)
                   (\<lambda>c1. case append_data data needed c1 of
                           Inl e \<Rightarrow> Some (Inl e)
                         | Inr c2 \<Rightarrow> split_requests me cb p False (d\<lparr>d_heap := (d_heap d)(p \<mapsto> c2)\<rparr>) s)) (d', s')"
      using ret c Received
      by (auto simp: read_cb_def Let_def needed_def [symmetric] not_less split: if_splits)
    then show ?thesis
    proof cases
      case 1
      then show ?thesis by (rule rm)
    next
      case 2
      have wn: "unat (word_of_nat (length data) :: u32) = length data"
        using 2(2) by (simp add: unat_of_nat)
      have "unat (UINT16_MAX - word_of_nat (length data)) = 65535 - length data"
        using wn 2(2) by (simp add: unat_sub wordsimps UINT16_MAX_def)
      then have "unat (c_input_buffer_used c) + length data \<le> 65535"
        using 2(2,3) by (simp add: wordsimps)
      then have need: "unat needed = unat (c_input_buffer_used c) + length data"
        using wn by (simp add: needed_def unat_word_ariths)
      have need_le: "unat needed \<le> 65533"
        using 2(4) by (simp add: wordsimps TCP_DNS_MAX_PAYLOAD_def)
      from 2(5) obtain c1 where es: "returns (ensure_space me (length data) needed c) c1"
          "(case append_data data needed c1 of Inl e \<Rightarrow> Some (Inl e)
            | Inr c2 \<Rightarrow> split_requests me cb p False (d\<lparr>d_heap := (d_heap d)(p \<mapsto> c2)\<rparr>) s) = Some (Inr (d', s'))"
        unfolding bind_prog_returns by blast
      from es obtain c2 where c1: "returns (ensure_space me (length data) needed c) c1"
          "append_data data needed c1 = Inr c2"
          "split_requests me cb p False (d\<lparr>d_heap := (d_heap d)(p \<mapsto> c2)\<rparr>) s = Some (Inr (d', s'))"
        by (cases "append_data data needed c1") simp_all
      obtain b sz where b: "c1 = c\<lparr>c_input_buffer := Some b, c_input_buffer_size := sz\<rparr>"
          "length b = unat sz" "unat needed \<le> unat sz" "64 \<le> unat sz" "unat sz \<le> 65536"
          "take (unat (c_input_buffer_used c)) b = pending c"
        using ensure_space_correct [OF c(2) _ _ need need_le, of "me\<lparr>malloc_ok := \<lambda>_. True\<rparr>"]
          ensure_space_ignores_malloc [OF c1(1)] 2(1) by auto
      obtain b' where b': "c2 = c\<lparr>c_input_buffer := Some b', c_input_buffer_size := sz, c_input_buffer_used := needed\<rparr>"
          "length b' = unat sz"
        using append_data_correct [OF b(2) need b(3,6)] c1(2) b(1) by auto
      have "tcp_inv (d\<lparr>d_heap := (d_heap d)(p \<mapsto> c2)\<rparr>) ps"
        using inv c b b' need_le by (intro tcp_inv_client [where c = c]) (simp_all add: client_ok_def)
      with split_requests_step [OF c1(3)] p show ?thesis by blast
    qed
  qed
qed

lemma tcp_step_inv:
  assumes "tcp_step cb x y" and "\<exists>ps. tcp_inv (fst x) ps"
  shows "\<exists>ps. tcp_inv (fst y) ps"
  using assms
proof (induction rule: tcp_step.induct)
  case (accept d p r uninit d' s)
  then obtain ps where inv: "tcp_inv d ps" by auto
  then have room: "d_client_count d < d_client_limit d"
    using accept(1) by (simp add: tcp_inv_def watch_ok_def wordsimps)
  from add_client_correct [OF inv room accept(2,3)] accept(4) inv show ?case
    by (auto simp: accept_cb_def split: accept_result.splits if_splits) (metis sum.inject(2))+
next
  case (read d p me r s d' s')
  then obtain ps where inv: "tcp_inv d ps" by auto
  then have "p \<in> set ps" using read(1) by (simp add: tcp_inv_def watch_ok_def)
  from read_cb_step [OF inv this read(2)] show ?case by (auto simp: client_step_ok_def)
next
  case (timeout d p d' s)
  then obtain ps where inv: "tcp_inv d ps" by auto
  then have "p \<in> set ps" using timeout(1) by (simp add: tcp_inv_def watch_ok_def)
  with remove_client_step [OF inv] timeout(2) show ?case
    by (auto simp: tcp_timer_cb_def client_step_ok_def)
next
  case (respond pr f raddr resp d d' s)
  then obtain ps where inv: "tcp_inv d ps" by auto
  from respond_cases [OF inv, of pr f raddr resp] respond(1) inv show ?case
    by (metis delivered_def dropped_def fst_conv option.inject sum.inject(2))
qed

interpretation tcp: invariant_system tcp_init "tcp_step cb" "\<lambda>x. \<exists>ps. tcp_inv (fst x) ps" for cb
proof unfold_locales
  show "\<exists>ps. tcp_inv (fst x) ps" if "tcp_init x" for x
  proof -
    from that obtain a le limit where "0 < limit" "dns_server_tcp_create a le limit = Inr (fst x)"
      unfolding tcp_init_def by blast
    then have "tcp_inv (fst x) []" using create_correct by blast
    then show ?thesis ..
  qed
qed (rule tcp_step_inv)

section \<open>Streams of requests\<close>

lemma sane_frames:
  assumes "\<forall>r \<in> set reqs. length r \<le> 61435"
  shows "sane (concat (map frame reqs))"
  using assms
proof (induction reqs)
  case (Cons r reqs)
  obtain hi lo where h: "htons (word_of_nat (length r)) = [hi, lo]"
    by (simp add: htons_def)
  have "unat (ntohs hi lo) = length r"
    using ntohs_htons [OF h] Cons.prems by (simp add: unat_of_nat)
  then have n: "unat hi * 256 + unat lo = length r" by simp
  then have "hi \<noteq> 255" using Cons.prems by auto
  moreover have "concat (map frame (r # reqs)) = hi # lo # (r @ concat (map frame reqs))"
    by (simp add: frame_def h)
  ultimately show ?case using Cons n by simp
qed simp

text \<open>An incomplete frame is shorter than the frame.\<close>

lemma deframe_short_frame:
  assumes "length r < 65536" "k < length (frame r)"
  shows "deframe (take k (frame r)) = ([], take k (frame r))"
proof -
  obtain hi lo where h: "htons (word_of_nat (length r)) = [hi, lo]"
    by (simp add: htons_def)
  have "unat (ntohs hi lo) = length r"
    using ntohs_htons [OF h] assms(1) by (simp add: unat_of_nat)
  then have n: "unat hi * 256 + unat lo = length r" by simp
  consider "k = 0" | "k = 1" | j where "k = Suc (Suc j)"
    by (metis One_nat_def not0_implies_Suc)
  then show ?thesis
    using assms(2) n by cases (simp_all add: frame_def h)
qed

lemma left_bounded_frames:
  assumes "\<forall>r \<in> set reqs. length r \<le> 61435"
  shows "left_bounded 61436 (concat (map frame reqs))"
  unfolding left_bounded_def
proof
  fix n
  show "length (snd (deframe (take n (concat (map frame reqs))))) \<le> 61436"
    using assms
  proof (induction reqs arbitrary: n)
    case (Cons r reqs)
    have len: "length (frame r) = length r + 2" by (simp add: frame_def)
    show ?case
    proof (cases "n < length (frame r)")
      case True
      then have "take n (concat (map frame (r # reqs))) = take n (frame r)" by simp
      with deframe_short_frame [OF _ True] Cons.prems True len show ?thesis by simp
    next
      case False
      define m where "m = n - length (frame r)"
      have t: "take n (concat (map frame (r # reqs))) = frame r @ take m (concat (map frame reqs))"
        using False by (simp add: m_def)
      have "deframe (frame r) = ([r], [])"
        using deframe_frames [of "[r]"] Cons.prems by simp
      then have "snd (deframe (frame r @ take m (concat (map frame reqs)))) =
          snd (deframe (take m (concat (map frame reqs))))"
        by (simp only: deframe_append [of "frame r"] fst_conv snd_conv append_Nil)
      with Cons t show ?thesis by simp
    qed
  qed simp
qed

text \<open>
  C5. The TCP receive path as a round trip: whatever way the network cuts a stream of framed DNS
  requests into pieces of up to one read buffer, the callback gets exactly those requests, complete and
  in order, and nothing stays behind in the client's buffer. Each request has at least a DNS header and
  at most 61435 bytes (one read buffer less than the largest input the server accepts).
\<close>

theorem tcp_stream_roundtrip:
  assumes "tcp_inv d ps" "d_heap d p = Some c" "pending c = []"
    and "concat xs = concat (map frame reqs)"
    and "\<forall>x \<in> set xs. x \<noteq> [] \<and> length x \<le> DNS_REQUEST_BUFFER_SIZE"
    and "\<forall>r \<in> set reqs. DNS_HEADER_LENGTH \<le> length r \<and> length r \<le> 61435"
    and "\<And>n. malloc_ok me n"
  shows "\<exists>d' c'. returns (receive_all me (\<lambda>is_tcp addr req got. Inr (got @ [(is_tcp, addr, req)])) p xs d [])
           (d', map (\<lambda>r. (True, c_raddr c, r)) reqs) \<and>
         tcp_inv d' ps \<and> d_heap d' p = Some c' \<and> pending c' = []"
proof -
  have collect: "fold (\<lambda>r got. got @ [(True, c_raddr c, r)]) rs got = got @ map (\<lambda>r. (True, c_raddr c, r)) rs" for rs got
    by (induction rs arbitrary: got) simp_all
  have "\<forall>r \<in> set reqs. length r < 65536" "\<forall>r \<in> set reqs. length r \<le> 61435" using assms(6) by auto
  then have de: "deframe (concat (map frame reqs)) = (reqs, [])"
      and ok: "sane (concat (map frame reqs))" "left_bounded 61436 (concat (map frame reqs))"
    using deframe_frames sane_frames left_bounded_frames by blast+
  show ?thesis
    using receive_all_deframe [where cb = "\<lambda>is_tcp addr req got. Inr (got @ [(is_tcp, addr, req)])"
        and f = "\<lambda>r got. got @ [(True, c_raddr c, r)]" and me = me and xs = xs and s = "[]",
        OF assms(1,2)] assms de ok
    by (simp add: collect)
qed

text \<open>A server with one connected client, for concrete runs.\<close>

definition example_client :: tcp_client where
  "example_client = \<lparr>c_id = 1, c_sock = 9, c_raddr = [2, 0, 200, 1], c_addr_len = length [2, 0, 200, 1 :: u8], c_input_buffer = None,
     c_input_buffer_size = 0, c_input_buffer_used = 0, c_next = 0\<rparr>"

definition example_listen :: listen_env where
  "example_listen = \<lparr>le_socket = 7, le_family = AF_INET, le_addrlen = 16, le_bind = 0, le_listen = 0,
     le_getfl = 2, le_setfl = 0\<rparr>"

definition example_server :: dns_server_tcp where
  "example_server = \<lparr>d_sock = 7, d_addrlen = 16, d_client_id = 1, d_client_count = 1, d_client_limit = 20,
     d_clients = 1, d_heap = [1 \<mapsto> example_client],
     d_calls = [Ev_start Accept_watcher, Ev_start (Read_watcher 1), Ev_set (Timer_watcher 1) 0 IDLE_TIMEOUT_S,
                Ev_again (Timer_watcher 1)]\<rparr>"

definition example_mem :: mem_env where
  "example_mem = \<lparr>malloc_ok = \<lambda>_. True, junk = \<lambda>_. 0\<rparr>"

lemma example_server_inv: "tcp_inv example_server [1]"
  by (auto simp: tcp_inv_def example_server_def example_client_def client_ok_def watch_ok_def ev_active_def)

lemma example_client_lookup: "d_heap example_server 1 = Some example_client" "pending example_client = []"
  by (simp_all add: example_server_def example_client_def pending_def)

theorem tcp_stream_roundtrip_witness:
  "\<exists>d' c'. returns (receive_all example_mem (\<lambda>is_tcp addr req got. Inr (got @ [(is_tcp, addr, req)])) 1
       [[0], [12, 1, 2, 3], [4, 5, 6, 7, 8, 9, 10, 11, 12, 0, 12, 9], [9, 9, 9, 9, 9, 9, 9, 9, 9, 9, 9]]
       example_server [])
     (d', [(True, [2, 0, 200, 1], [1, 2, 3, 4, 5, 6, 7, 8, 9, 10, 11, 12]),
           (True, [2, 0, 200, 1], [9, 9, 9, 9, 9, 9, 9, 9, 9, 9, 9, 9])]) \<and>
   tcp_inv d' [1] \<and> d_heap d' 1 = Some c' \<and> pending c' = []"
  using tcp_stream_roundtrip [OF example_server_inv example_client_lookup, where me = example_mem
      and reqs = "[[1, 2, 3, 4, 5, 6, 7, 8, 9, 10, 11, 12], [9, 9, 9, 9, 9, 9, 9, 9, 9, 9, 9, 9]]"
      and xs = "[[0], [12, 1, 2, 3], [4, 5, 6, 7, 8, 9, 10, 11, 12, 0, 12, 9], [9, 9, 9, 9, 9, 9, 9, 9, 9, 9, 9]]"]
  by (simp add: frame_def htons_def DNS_REQUEST_BUFFER_SIZE_def DNS_HEADER_LENGTH_def example_mem_def
      example_client_def)

section \<open>Properties of the server\<close>

text \<open>
  C6. In every state that accepting, reading, timing out and answering reach from a created server with a
  positive client limit: the clients form one duplicate-free null-terminated list that holds exactly the
  allocated clients (nothing leaks, nothing dangles), the count is its length and within the limit, every
  input buffer has its recorded size, and libev watches new connections exactly while there is room, and
  reads and idle timers of exactly the listed clients.
\<close>

theorem tcp_reachable_invariant:
  assumes "reach tcp_init (tcp_step cb) (d, s)"
  shows "\<exists>ps. chain (d_heap d) (d_clients d) ps \<and> distinct ps \<and> dom (d_heap d) = set ps \<and>
     length ps = unat (d_client_count d) \<and> d_client_count d \<le> d_client_limit d \<and>
     (\<forall>p c. d_heap d p = Some c \<longrightarrow> client_ok c) \<and>
     watch_ok (d_calls d) ps (unat (d_client_limit d))"
  using tcp.reach_inv [OF assms] by (simp add: tcp_inv_def)

lemma example_server_reached: "reach tcp_init (tcp_step cb) (example_server, ())"
proof -
  obtain d where d: "dns_server_tcp_create True example_listen 20 = Inr d"
      "accept_cb (Accepted 9 [2, 0, 200, 1]) [] (Some 1) d = Inr example_server"
      "ev_active (d_calls d) Accept_watcher" "d_heap d = Map.empty"
    by (simp add: dns_server_tcp_create_def get_tcp_listen_sock_def example_listen_def accept_cb_def
        add_client_def emit_def example_server_def example_client_def ev_active_def)
  have "tcp_init (d, ())" using d(1) unfolding tcp_init_def by (intro exI conjI) auto
  then have "reach tcp_init (tcp_step cb) (d, ())" by (rule reach_init)
  moreover have "tcp_step cb (d, ()) (example_server, ())"
    using d by (intro tcp_step.accept [where p = 1]) auto
  ultimately show ?thesis by (rule reach_step)
qed

theorem tcp_reachable_invariant_witness:
  "\<exists>ps. chain (d_heap example_server) (d_clients example_server) ps \<and> length ps = unat (d_client_count example_server)"
  using tcp_reachable_invariant [OF example_server_reached [of "\<lambda>_ _ _ s. Inr s"]] by blast

text \<open>
  C7. Answers are all or nothing. On a server in a consistent state \<open>dns_server_tcp_respond\<close> always returns,
  whatever the \<open>send\<close> calls do, and either changes nothing, or hands the first client with the requester's
  address the length prefix and the whole response and keeps all clients, or removes that client and closes
  its socket, so that no client that stays connected has received part of a message.
\<close>

theorem tcp_respond_all_or_nothing:
  assumes "tcp_inv d ps"
  shows "\<exists>d'. returns (dns_server_tcp_respond prefix_res snd_res raddr resp d) d' \<and>
     (d' = d \<or>
      (\<exists>q \<in> set ps. returns (find_client (d_heap d) raddr (d_clients d)) q \<and>
         (delivered d ps q resp d' \<or> dropped d ps q d')))"
  using respond_cases [OF assms, of prefix_res snd_res raddr resp] by metis

theorem tcp_respond_all_or_nothing_witness:
  "\<exists>d'. returns (dns_server_tcp_respond (Sent 2) (\<lambda>k. if k = 0 then Sent 5 else Send_error EAGAIN)
           [2, 0, 200, 1] (replicate 20 7) example_server) d' \<and>
     (d' = example_server \<or>
      (\<exists>q \<in> set [1]. returns (find_client (d_heap example_server) [2, 0, 200, 1] (d_clients example_server)) q \<and>
         (delivered example_server [1] q (replicate 20 7) d' \<or> dropped example_server [1] q d')))"
  by (rule tcp_respond_all_or_nothing [OF example_server_inv])

lemma tcp_stop_correct:
  assumes "tcp_inv d ps"
  shows "\<exists>d'. returns (dns_server_tcp_stop d) d' \<and> d_clients d' = 0 \<and> d_client_count d' = 0 \<and>
     d_heap d' = Map.empty \<and> \<not> ev_active (d_calls d') Accept_watcher \<and>
     (\<forall>p. \<not> ev_active (d_calls d') (Read_watcher p) \<and> \<not> ev_active (d_calls d') (Timer_watcher p))"
proof -
  obtain d1 where d1: "returns (remove_all d) d1" "tcp_inv d1 []"
    using remove_all_correct [OF assms] by blast
  then have "returns (dns_server_tcp_stop d) (emit [Ev_stop Accept_watcher] d1)"
    by (simp add: dns_server_tcp_stop_def)
  with d1(2) show ?thesis
    by (auto simp: tcp_inv_def watch_ok_def ev_active_append unat_eq_0)
qed

text \<open>
  C24. Stopping terminates and leaves nothing behind: no client, no allocation, and none of the server's
  watchers active.
\<close>

theorem tcp_stop_releases_clients:
  assumes "tcp_inv d ps"
  shows "\<exists>d'. returns (dns_server_tcp_stop d) d' \<and> d_clients d' = 0 \<and> d_client_count d' = 0 \<and>
     d_heap d' = Map.empty \<and> \<not> ev_active (d_calls d') Accept_watcher \<and>
     (\<forall>p. \<not> ev_active (d_calls d') (Read_watcher p) \<and> \<not> ev_active (d_calls d') (Timer_watcher p))"
  using tcp_stop_correct [OF assms] .

theorem tcp_stop_releases_clients_witness:
  "\<exists>d'. returns (dns_server_tcp_stop example_server) d' \<and> d_clients d' = 0 \<and> d_client_count d' = 0 \<and>
     d_heap d' = Map.empty \<and> \<not> ev_active (d_calls d') Accept_watcher \<and>
     (\<forall>p. \<not> ev_active (d_calls d') (Read_watcher p) \<and> \<not> ev_active (d_calls d') (Timer_watcher p))"
  by (rule tcp_stop_releases_clients [OF example_server_inv])

section \<open>Where the receive path goes wrong\<close>

text \<open>A buffer whose first two bytes announce 65534 bytes: the 16 bit sum \<open>data_size\<close> is 0.\<close>

lemma wrapped_request:
  assumes "c_input_buffer c = Some buf" "2 \<le> length buf" "buf ! 0 = 255" "buf ! 1 = 254"
    and "malloc_ok me 65534"
  shows "length buf < 65536 \<Longrightarrow> get_dns_request me c = Inl Undef"
    and "length buf = 65536 \<Longrightarrow> unat (c_input_buffer_used c) \<le> length buf \<Longrightarrow>
         get_dns_request me c = Inr (Some (take 65534 (drop 2 buf), 65534, c))"
proof -
  have q: "ntohs 255 254 = 65534" by (simp add: ntohs_def)
  have w: "(2 + 65534 :: u16) = 0" by simp
  show "length buf < 65536 \<Longrightarrow> get_dns_request me c = Inl Undef"
    using assms by (simp add: get_dns_request_def q w)
  show "length buf = 65536 \<Longrightarrow> unat (c_input_buffer_used c) \<le> length buf \<Longrightarrow>
         get_dns_request me c = Inr (Some (take 65534 (drop 2 buf), 65534, c))"
    using assms by (simp add: get_dns_request_def q w)
qed

text \<open>
  C33. A length prefix of 65534 as the first data of a connection makes \<open>get_dns_request\<close> read far outside
  the allocation: \<open>data_size\<close> wraps to 0, the request counts as complete, and 65534 bytes are copied from a
  buffer that is smaller. Any client can do this with two bytes.
\<close>

theorem tcp_length_prefix_overread:
  assumes "tcp_inv d ps" "d_heap d p = Some c" "c_input_buffer c = None"
    and "data = 255 # 254 # rest" "length data \<le> DNS_REQUEST_BUFFER_SIZE" "\<And>n. malloc_ok me n"
  shows "read_cb me cb p (Received data) d s = Some (Inl Undef)"
proof -
  have ok: "client_ok c" using assms(1,2) by (auto simp: tcp_inv_def)
  have fresh: "c_input_buffer_used c = 0" "c_input_buffer_size c = 0" "pending c = []"
    using ok assms(3) by (auto simp: client_ok_def pending_def)
  have data: "data \<noteq> []" "2 \<le> length data" "data ! 0 = 255" "data ! 1 = 254" "length data \<le> 4096"
    using assms(4,5) by (simp_all add: DNS_REQUEST_BUFFER_SIZE_def)
  have room: "length (pending c) + length data \<le> 65533" using data(5) fresh by simp
  obtain needed where used: "unat needed = unat (c_input_buffer_used c) + length data"
    and le: "unat needed \<le> 65533"
    and rd: "read_cb me cb p (Received data) d s =
       bind_prog (ensure_space me (length data) needed c)
         (\<lambda>c1. case append_data data needed c1 of
                 Inl e \<Rightarrow> Some (Inl e)
               | Inr c2 \<Rightarrow> split_requests me cb p False (d\<lparr>d_heap := (d_heap d)(p \<mapsto> c2)\<rparr>) s)"
    by (rule read_cb_accepts [OF ok assms(2) data(1) room, where me = me and cb = cb and s = s])
  then have need: "unat needed = length data" using fresh by simp
  obtain sz where sz: "returns (grow needed 64) sz" "length data \<le> unat sz" "64 \<le> unat sz"
      "unat sz = 64 \<or> unat sz < 2 * length data"
    using grow_64 [OF le] need by auto
  define b where "b = data @ drop (length data) (map (junk me) [0..<unat sz])"
  define c2 where "c2 = c\<lparr>c_input_buffer_size := sz, c_input_buffer := Some b, c_input_buffer_used := needed\<rparr>"
  have "read_cb me cb p (Received data) d s = split_requests me cb p False (d\<lparr>d_heap := (d_heap d)(p \<mapsto> c2)\<rparr>) s"
    unfolding rd using data(1) fresh assms(3,6) sz need
    by (simp add: ensure_space_def realloc_buf_def append_data_def Let_def c2_def b_def)
  moreover have "length b < 65536" "2 \<le> length b" "b ! 0 = 255" "b ! 1 = 254"
    using sz data by (auto simp: b_def nth_append)
  then have "get_dns_request me c2 = Inl Undef"
    using assms(6) by (intro wrapped_request(1) [of c2 b]) (simp_all add: c2_def)
  ultimately show ?thesis by (simp add: split_requests.simps)
qed

theorem tcp_length_prefix_overread_witness:
  "read_cb example_mem (\<lambda>_ _ _ s. Inr s) 1 (Received [255, 254]) example_server () = Some (Inl Undef)"
  by (rule tcp_length_prefix_overread [OF example_server_inv example_client_lookup(1)])
    (simp_all add: example_client_def example_mem_def DNS_REQUEST_BUFFER_SIZE_def)

text \<open>A client whose buffer starts with such a prefix and is as large as the copy needs.\<close>

definition wrapped :: "tcp_client \<Rightarrow> bool" where
  "wrapped c \<longleftrightarrow> (\<exists>buf. c_input_buffer c = Some buf \<and> length buf = 65536 \<and> buf ! 0 = 255 \<and> buf ! 1 = 254 \<and>
     unat (c_input_buffer_used c) \<le> 65536)"

lemma wrapped_get:
  assumes "wrapped c" "malloc_ok me 65534"
  shows "\<exists>req. get_dns_request me c = Inr (Some (req, 65534, c))"
  using assms wrapped_request(2) [of c _ me] unfolding wrapped_def by force

lemma wrapped_never_returns:
  assumes "d_heap d p = Some c" "wrapped c" "malloc_ok me 65534" "\<And>a r s. \<exists>s'. cb True a r s = Inr s'"
  shows "split_requests me cb p rc d s = None"
proof (rule ccontr)
  assume "split_requests me cb p rc d s \<noteq> None"
  then obtain r where r: "split_requests me cb p rc d s = Some r" by auto
  have "\<not> (malloc_ok me 65534 \<and> (\<forall>a r s. \<exists>s'. cb True a r s = Inr s') \<and> (\<exists>c. d_heap d p = Some c \<and> wrapped c))"
  proof (rule split_requests.raw_induct [where P = "\<lambda>me cb p rc d s r.
      \<not> (malloc_ok me 65534 \<and> (\<forall>a r s. \<exists>s'. cb True a r s = Inr s') \<and> (\<exists>c. d_heap d p = Some c \<and> wrapped c))", OF _ r],
      goal_cases)
    case (1 again me cb p rc d s r)
    show ?case
    proof
      assume a: "malloc_ok me 65534 \<and> (\<forall>a r s. \<exists>s'. cb True a r s = Inr s') \<and> (\<exists>c. d_heap d p = Some c \<and> wrapped c)"
      then obtain c req where c: "d_heap d p = Some c" "wrapped c" "get_dns_request me c = Inr (Some (req, 65534, c))"
        using wrapped_get by blast
      obtain s' where s': "cb True (c_raddr c) req s = Inr s'" using a by blast
      have same: "d\<lparr>d_heap := (d_heap d)(p \<mapsto> c)\<rparr> = d" using c(1) by (simp add: fun_upd_idem)
      have "again me cb p True d s' = Some r"
        using 1(2) c s' by (simp add: same DNS_HEADER_LENGTH_def)
      with 1(1) a show False by blast
    qed
  qed
  with assms show False by blast
qed

text \<open>
  C34. The same prefix on a connection whose buffer has grown to 65536 bytes makes the server hang: each turn
  of the loop takes 0 bytes off the buffer and hands the callback the same 65534 bytes again, so \<open>read_cb\<close>
  never returns and the single-threaded proxy serves nobody any more.
\<close>

theorem tcp_length_prefix_hang:
  assumes "tcp_inv d ps" "d_heap d p = Some c" "c_input_buffer_size c = 65536" "pending c = []"
    and "data = 255 # 254 # rest" "length data \<le> DNS_REQUEST_BUFFER_SIZE" "malloc_ok me 65534"
    and "\<And>a r s. \<exists>s'. cb True a r s = Inr s'"
  shows "read_cb me cb p (Received data) d s = None"
proof -
  have ok: "client_ok c" using assms(1,2) by (auto simp: tcp_inv_def)
  then obtain buf where buf: "c_input_buffer c = Some buf" "length buf = 65536"
    using assms(3) by (auto simp: client_ok_def split: option.splits)
  have used: "c_input_buffer_used c = 0"
    using length_pending [OF ok] assms(4) by (simp add: wordsimps)
  have data: "data \<noteq> []" "2 \<le> length data" "data ! 0 = 255" "data ! 1 = 254" "length data \<le> 4096"
    using assms(5,6) by (simp_all add: DNS_REQUEST_BUFFER_SIZE_def)
  have room: "length (pending c) + length data \<le> 65533" using data(5) assms(4) by simp
  obtain needed where need: "unat needed = unat (c_input_buffer_used c) + length data"
    and le: "unat needed \<le> 65533"
    and rd: "read_cb me cb p (Received data) d s =
       bind_prog (ensure_space me (length data) needed c)
         (\<lambda>c1. case append_data data needed c1 of
                 Inl e \<Rightarrow> Some (Inl e)
               | Inr c2 \<Rightarrow> split_requests me cb p False (d\<lparr>d_heap := (d_heap d)(p \<mapsto> c2)\<rparr>) s)"
    by (rule read_cb_accepts [OF ok assms(2) data(1) room, where me = me and cb = cb and s = s])
  define b where "b = data @ drop (length data) buf"
  define c2 where "c2 = c\<lparr>c_input_buffer := Some b, c_input_buffer_used := needed\<rparr>"
  have "read_cb me cb p (Received data) d s = split_requests me cb p False (d\<lparr>d_heap := (d_heap d)(p \<mapsto> c2)\<rparr>) s"
    unfolding rd using buf used assms(3) data(5)
    by (simp add: ensure_space_def append_data_def Let_def c2_def b_def)
  moreover have "wrapped c2"
    using buf data need used by (simp add: wrapped_def c2_def b_def nth_append)
  ultimately show ?thesis
    using wrapped_never_returns [of "d\<lparr>d_heap := (d_heap d)(p \<mapsto> c2)\<rparr>" p c2 me cb] assms(7,8) by simp
qed

definition example_grown :: dns_server_tcp where
  "example_grown = example_server\<lparr>d_heap := [1 \<mapsto> example_client\<lparr>c_input_buffer := Some (replicate 65536 0),
     c_input_buffer_size := 65536\<rparr>]\<rparr>"

theorem tcp_length_prefix_hang_witness:
  "read_cb example_mem (\<lambda>_ _ _ s. Inr s) 1 (Received [255, 254]) example_grown () = None"
proof (rule tcp_length_prefix_hang)
  show "tcp_inv example_grown [1]"
    using example_server_inv unfolding example_grown_def example_server_def
    by (simp add: tcp_inv_def example_client_def client_ok_def)
qed (auto simp: example_grown_def pending_def example_client_def example_mem_def DNS_REQUEST_BUFFER_SIZE_def)

section \<open>Errors of accepting and sending\<close>

text \<open>
  C35. \<open>accept\<close> that fails with EAGAIN or EWOULDBLOCK (a connection that is gone again) is not an early
  return: the server counts and lists a client with socket -1 and starts its watchers, which takes one of the
  limited places until the read on the bad descriptor or the idle timer removes it.
\<close>

theorem tcp_accept_eagain_adds_client:
  assumes "tcp_inv d ps" "d_client_count d < d_client_limit d" "p \<noteq> 0" "p \<notin> dom (d_heap d)"
    and "e = EAGAIN \<or> e = EWOULDBLOCK"
  shows "\<exists>d' c. accept_cb (Accept_error e) uninit (Some p) d = Inr d' \<and> tcp_inv d' (p # ps) \<and>
     d_heap d' p = Some c \<and> c_sock c = -1 \<and> unat (d_client_count d') = Suc (unat (d_client_count d))"
proof -
  obtain d' where d': "add_client (Some p) (-1) uninit d = Inr d'" "tcp_inv d' (p # ps)"
      "\<exists>c. d_heap d' p = Some c \<and> c_sock c = -1"
    using add_client_correct [OF assms(1-4), of "-1" uninit] by auto
  have "unat (d_client_count d') = Suc (unat (d_client_count d))"
    using d'(2) assms(1) by (simp add: tcp_inv_def)
  with d' assms(5) show ?thesis by (auto simp: accept_cb_def)
qed

theorem tcp_accept_eagain_adds_client_witness:
  "\<exists>d' c. accept_cb (Accept_error EAGAIN) [] (Some 2) example_server = Inr d' \<and> tcp_inv d' [2, 1] \<and>
     d_heap d' 2 = Some c \<and> c_sock c = -1 \<and> unat (d_client_count d') = Suc (unat (d_client_count example_server))"
  by (rule tcp_accept_eagain_adds_client [OF example_server_inv]) (simp_all add: example_server_def)

lemma send_loop_eagain: "(\<And>k. f k = Send_error EAGAIN) \<Longrightarrow> send_loop f sock resp n k sent = ([], Inr sent)"
  by (induction n arbitrary: k) simp_all

text \<open>
  C36. A full socket buffer is not waited for. When every \<open>send\<close> of the response reports EAGAIN, the fifty
  attempts follow each other without a single \<open>usleep\<close>, and the client is dropped at once.
\<close>

theorem tcp_respond_eagain_no_delay:
  assumes "tcp_inv d ps" "DNS_HEADER_LENGTH \<le> length resp" "length resp \<le> unat TCP_DNS_MAX_PAYLOAD"
    and "returns (find_client (d_heap d) raddr (d_clients d)) q" "q \<noteq> 0" "d_heap d q = Some c"
    and "\<And>k. snd_res k = Send_error EAGAIN"
  shows "\<exists>d' cs. returns (dns_server_tcp_respond (Sent 2) snd_res raddr resp d) d' \<and>
     d_calls d' = d_calls d @ cs \<and> Close (c_sock c) \<in> set cs \<and> (\<forall>t. Usleep t \<notin> set cs) \<and> tcp_inv d' (remove1 q ps)"
proof -
  let ?pre = "Send (c_sock c) (htons (word_of_nat (length resp)))"
  have "tcp_inv (emit [?pre] d) ps" by (rule tcp_inv_emit [OF assms(1)]) simp
  from remove_client_correct [OF this, of q c] assms(6) obtain d' where
    d': "returns (remove_client q (emit [?pre] d)) d'" "tcp_inv d' (remove1 q ps)"
      "d_calls d' = d_calls d @ [?pre] @ (if d_client_count d = d_client_limit d then [Ev_start Accept_watcher] else []) @
             [Ev_stop (Read_watcher q), Ev_stop (Timer_watcher q), Close (c_sock c)]"
    by auto
  have "0 < length resp" using assms(2) by (auto simp: DNS_HEADER_LENGTH_def)
  then have "dns_server_tcp_respond (Sent 2) snd_res raddr resp d = remove_client q (emit [] (emit [?pre] d))"
    using assms(2-6) by (simp add: dns_server_tcp_respond_def Let_def send_loop_eagain [OF assms(7)])
  moreover have "emit [] (emit [?pre] d) = emit [?pre] d" by (simp add: emit_def)
  ultimately have "dns_server_tcp_respond (Sent 2) snd_res raddr resp d = remove_client q (emit [?pre] d)"
    by (simp only:)
  with d' show ?thesis by auto
qed

theorem tcp_respond_eagain_no_delay_witness:
  "\<exists>d' cs. returns (dns_server_tcp_respond (Sent 2) (\<lambda>_. Send_error EAGAIN) [2, 0, 200, 1] (replicate 20 7)
       example_server) d' \<and>
     d_calls d' = d_calls example_server @ cs \<and> Close (c_sock example_client) \<in> set cs \<and>
     (\<forall>t. Usleep t \<notin> set cs) \<and> tcp_inv d' (remove1 1 [1])"
  by (rule tcp_respond_eagain_no_delay [OF example_server_inv])
    (simp_all add: DNS_HEADER_LENGTH_def TCP_DNS_MAX_PAYLOAD_def example_server_def find_client.simps example_client_def)

end
