(* ===== verification/Ring_Buffer.thy ===== *)
theory Ring_Buffer
  imports Prelude
begin

text \<open>
  The flight recorder's storage, src/src/ring_buffer.c: a fixed array of log lines that overwrites its
  oldest entry. The record mirrors \<open>struct ring_buffer\<close>; a pointer is an \<open>option\<close>, and an entry of the
  array is the whole \<open>malloc\<close>ed block with its final NUL. The interface locale \<open>bounded_log\<close> states what
  a bounded log promises, and the interpretation at the end discharges it for this code.
\<close>

section \<open>Data and operations\<close>

definition MAX_LOG_ENTRY_SIZE :: u32 where
  "MAX_LOG_ENTRY_SIZE = 8192"

record ring_buffer =
  rb_storage :: "string option list option"
  rb_size :: u32
  rb_next :: u32
  rb_full :: u8

text \<open>The two booleans say whether the two calls of \<open>calloc\<close> succeed.\<close>

definition ring_buffer_init :: "bool \<Rightarrow> bool \<Rightarrow> u32 \<Rightarrow> ring_buffer option" where
  "ring_buffer_init calloc_rb calloc_storage sz =
     (if sz < 1 then None
      else if \<not> calloc_rb then None
      else if \<not> calloc_storage then None
      else Some \<lparr>rb_storage = Some (replicate (unat sz) None), rb_size = sz,
                 rb_next = 0, rb_full = 0\<rparr>)"

text \<open>
  Freeing returns the blocks it releases, in order, and the caller's pointer afterwards. The pointer
  is dereferenced without a check.
\<close>

datatype block = Entry nat | Storage_array | Ring_struct

definition ring_buffer_free :: "ring_buffer option \<Rightarrow> (block list \<times> ring_buffer option) res" where
  "ring_buffer_free rbp =
     (case rbp of
        None \<Rightarrow> Inl Undef
      | Some rb \<Rightarrow>
          (case rb_storage rb of
             None \<Rightarrow> Inr ([], Some rb)
           | Some st \<Rightarrow>
               if length st < unat (rb_size rb) then Inl Undef
               else Inr (map Entry (filter (\<lambda>i. st ! i \<noteq> None) [0..<unat (rb_size rb)])
                           @ [Storage_array, Ring_struct], None)))"

text \<open>
  The loop of \<open>ring_buffer_dump\<close>. It ends only when it comes back to \<open>next\<close>, so it is a partial
  function: \<open>None\<close> would be a loop without end. Printing a null entry with \<open>%s\<close> is undefined.
\<close>

partial_function (option) dump_loop ::
  "string option list \<Rightarrow> u32 \<Rightarrow> u32 \<Rightarrow> u32 \<Rightarrow> string list \<Rightarrow> string list res option" where
  "dump_loop st sz next current out =
     (if length st \<le> unat current then Some (Inl Undef)
      else (case st ! unat current of
              None \<Rightarrow> Some (Inl Undef)
            | Some e \<Rightarrow>
                (let out' = out @ [cstr e];
                     current' = (if current + 1 = sz then 0 else current + 1)
                 in if current' \<noteq> next then dump_loop st sz next current' out'
                    else Some (Inr out'))))"

definition ring_buffer_dump :: "ring_buffer option \<Rightarrow> string list res option" where
  "ring_buffer_dump rbp =
     (case rbp of
        None \<Rightarrow> Some (Inr [])
      | Some rb \<Rightarrow>
          (case rb_storage rb of
             None \<Rightarrow> Some (Inr [])
           | Some st \<Rightarrow>
               if rb_next rb = 0 \<and> rb_full rb = 0 then Some (Inr [])
               else dump_loop st (rb_size rb) (rb_next rb)
                      (if rb_full rb \<noteq> 0 then rb_next rb else 0) []))"

text \<open>\<open>data\<close> is the readable memory behind the argument pointer.\<close>

definition ring_buffer_push_back :: "bool \<Rightarrow> ring_buffer \<Rightarrow> string \<Rightarrow> u32 \<Rightarrow> ring_buffer res" where
  "ring_buffer_push_back alloc rb data sz =
     (case rb_storage rb of
        None \<Rightarrow> Inr rb
      | Some st \<Rightarrow>
          (let n = (if sz > MAX_LOG_ENTRY_SIZE then MAX_LOG_ENTRY_SIZE else sz);
               next = unat (rb_next rb)
           in if length st \<le> next then Inl Undef
              else if \<not> alloc then Inr (rb\<lparr>rb_storage := Some (st[next := None])\<rparr>)
              else if length data < unat n then Inl Undef
              else (let rb' = rb\<lparr>rb_storage := Some (st[next := Some (take (unat n) data @ [NUL])]),
                                 rb_next := rb_next rb + 1\<rparr>
                    in Inr (if rb_next rb' = rb_size rb'
                            then rb'\<lparr>rb_next := 0, rb_full := 1\<rparr> else rb'))))"

text \<open>A sequence of pushes whose allocations succeed, as the logging code makes them.\<close>

fun ring_buffer_push_list :: "ring_buffer \<Rightarrow> (string \<times> u32) list \<Rightarrow> ring_buffer res" where
  "ring_buffer_push_list rb [] = Inr rb"
| "ring_buffer_push_list rb ((data, sz) # es) =
     bind_res (ring_buffer_push_back True rb data sz) (\<lambda>rb'. ring_buffer_push_list rb' es)"

section \<open>Invariant and abstraction\<close>

text \<open>
  A well-formed buffer: the array has \<open>size\<close> slots, \<open>next\<close> is one of them, and exactly the slots
  already used hold an entry.
\<close>

definition rb_inv :: "ring_buffer \<Rightarrow> bool" where
  "rb_inv rb \<longleftrightarrow>
     (case rb_storage rb of
        None \<Rightarrow> False
      | Some st \<Rightarrow>
          length st = unat (rb_size rb) \<and> rb_next rb < rb_size rb \<and>
          (\<forall>i < length st. st ! i \<noteq> None \<longleftrightarrow> rb_full rb \<noteq> 0 \<or> i < unat (rb_next rb)))"

text \<open>
  The part of it that survives a failed allocation, which leaves a slot empty: the array has \<open>size\<close> slots and
  \<open>next\<close> is one of them.
\<close>

definition rb_shape :: "ring_buffer \<Rightarrow> bool" where
  "rb_shape rb \<longleftrightarrow>
     (case rb_storage rb of None \<Rightarrow> False | Some st \<Rightarrow> length st = unat (rb_size rb) \<and> rb_next rb < rb_size rb)"

text \<open>The lines the buffer holds, oldest first.\<close>

definition rb_contents :: "ring_buffer \<Rightarrow> string list" where
  "rb_contents rb =
     (case rb_storage rb of
        None \<Rightarrow> []
      | Some st \<Rightarrow>
          map (\<lambda>i. cstr (the (st ! i)))
            ((if rb_full rb \<noteq> 0 then [unat (rb_next rb)..<unat (rb_size rb)] else [])
             @ [0..<unat (rb_next rb)]))"

section \<open>What a bounded log promises\<close>

locale bounded_log =
  fixes push :: "'e \<Rightarrow> 'q \<Rightarrow> 'q"
    and contents :: "'q \<Rightarrow> 'a list"
    and entry :: "'e \<Rightarrow> 'a"
    and cap :: "'q \<Rightarrow> nat"
    and inv :: "'q \<Rightarrow> bool"
    and ok :: "'e \<Rightarrow> bool"
  assumes inv_push: "inv q \<Longrightarrow> ok e \<Longrightarrow> inv (push e q)"
    and cap_push: "inv q \<Longrightarrow> ok e \<Longrightarrow> cap (push e q) = cap q"
    and contents_push: "inv q \<Longrightarrow> ok e \<Longrightarrow> contents (push e q) = lastn (cap q) (contents q @ [entry e])"
    and bounded: "inv q \<Longrightarrow> length (contents q) \<le> cap q"
begin

lemma push_all:
  "inv q \<Longrightarrow> \<forall>e \<in> set es. ok e \<Longrightarrow>
   inv (fold push es q) \<and> cap (fold push es q) = cap q \<and>
   contents (fold push es q) = lastn (cap q) (contents q @ map entry es)"
proof (induction es arbitrary: q)
  case Nil
  then show ?case by (simp add: bounded)
next
  case (Cons e es)
  then have q': "inv (push e q)" "cap (push e q) = cap q"
    "contents (push e q) = lastn (cap q) (contents q @ [entry e])"
    by (simp_all add: inv_push cap_push contents_push)
  with Cons.IH [OF q'(1)] Cons.prems(2) show ?case
    by (simp add: lastn_lastn_append)
qed

lemma newest_kept:
  "inv q \<Longrightarrow> \<forall>e \<in> set es. ok e \<Longrightarrow> ok e \<Longrightarrow> 0 < cap q \<Longrightarrow> last (contents (fold push (es @ [e]) q)) = entry e"
  using push_all [of q "es @ [e]"]
  by (simp add: lastn_def last_drop)

end

section \<open>Correctness of the operations\<close>

lemma rb_invE:
  assumes "rb_inv rb"
  obtains st where "rb_storage rb = Some st" "length st = unat (rb_size rb)"
    "unat (rb_next rb) < unat (rb_size rb)"
    "\<And>i. i < unat (rb_size rb) \<Longrightarrow> st ! i \<noteq> None \<longleftrightarrow> rb_full rb \<noteq> 0 \<or> i < unat (rb_next rb)"
  using assms by (auto simp: rb_inv_def wordsimps split: option.splits)

lemma length_rb_contents:
  "rb_inv rb \<Longrightarrow> length (rb_contents rb) =
     (if rb_full rb \<noteq> 0 then unat (rb_size rb) else unat (rb_next rb))"
  by (elim rb_invE) (simp add: rb_contents_def)

lemma dump_loop_upto:
  assumes "unat next < unat sz" "length st = unat sz"
    and "unat current < unat next" "\<And>i. i < unat next \<Longrightarrow> st ! i \<noteq> None"
  shows "dump_loop st sz next current out =
           Some (Inr (out @ map (\<lambda>i. cstr (the (st ! i))) [unat current..<unat next]))"
  using assms(3)
proof (induction "unat next - unat current" arbitrary: current out)
  case 0
  then show ?case by simp
next
  case (Suc k)
  have cur: "unat (current + 1) = Suc (unat current)"
    using Suc.prems by (intro unat_Suc_lt [of current "next"]) (simp add: wordsimps)
  have nosize: "current + 1 \<noteq> sz"
    using cur Suc.prems assms(1) by (auto simp: wordsimps)
  obtain e where e: "st ! unat current = Some e"
    using assms(4) [OF Suc.prems] by auto
  have range: "[unat current..<unat next] = unat current # [Suc (unat current)..<unat next]"
    using Suc.prems by (simp add: upt_conv_Cons)
  show ?case
  proof (cases "current + 1 = next")
    case True
    then have "Suc (unat current) = unat next" using cur by simp
    then show ?thesis
      using True e nosize Suc.prems assms by (subst dump_loop.simps) (simp add: range)
  next
    case False
    then have lt: "unat (current + 1) < unat next"
      using cur Suc.prems by (auto simp: wordsimps)
    have "k = unat next - unat (current + 1)" using Suc.hyps(2) cur by simp
    from Suc.hyps(1) [OF this lt] show ?thesis
      using False e nosize Suc.prems assms cur
      by (subst dump_loop.simps) (simp add: range)
  qed
qed

lemma dump_loop_wrap:
  assumes "unat next < unat sz" "length st = unat sz"
    and "unat next \<le> unat current" "unat current < unat sz"
    and "\<And>i. i < unat sz \<Longrightarrow> st ! i \<noteq> None"
  shows "dump_loop st sz next current out =
           Some (Inr (out @ map (\<lambda>i. cstr (the (st ! i))) ([unat current..<unat sz] @ [0..<unat next])))"
  using assms(3,4)
proof (induction "unat sz - unat current" arbitrary: current out)
  case 0
  then show ?case by simp
next
  case (Suc k)
  have cur: "unat (current + 1) = Suc (unat current)"
    using Suc.prems by (intro unat_Suc_lt [of current sz]) (simp add: wordsimps)
  obtain e where e: "st ! unat current = Some e"
    using assms(5) [OF Suc.prems(2)] by auto
  have range: "[unat current..<unat sz] = unat current # [Suc (unat current)..<unat sz]"
    using Suc.prems by (simp add: upt_conv_Cons)
  show ?case
  proof (cases "current + 1 = sz")
    case wrap: True
    then have last: "Suc (unat current) = unat sz" using cur by simp
    show ?thesis
    proof (cases "next = 0")
      case True
      then show ?thesis
        using wrap last e Suc.prems assms by (subst dump_loop.simps) (simp add: range)
    next
      case False
      then have "unat (0::u32) < unat next" by (simp add: unat_gt_0)
      from dump_loop_upto [OF assms(1,2) this, of "out @ [cstr e]"] assms(1,5)
      show ?thesis
        using wrap last e False Suc.prems assms(2) by (subst dump_loop.simps) (auto simp: range)
    qed
  next
    case False
    then have lt: "unat (current + 1) < unat sz" "unat next \<le> unat (current + 1)" "current + 1 \<noteq> next"
      using cur Suc.prems by (auto simp: wordsimps)
    have "k = unat sz - unat (current + 1)" using Suc.hyps(2) cur by simp
    from Suc.hyps(1) [OF this lt(2,1)] show ?thesis
      using False lt e Suc.prems assms cur
      by (subst dump_loop.simps) (simp add: range)
  qed
qed

lemma dump_contents:
  assumes "rb_inv rb"
  shows "ring_buffer_dump (Some rb) = Some (Inr (rb_contents rb))"
  using assms
proof (elim rb_invE)
  fix st
  assume st: "rb_storage rb = Some st" "length st = unat (rb_size rb)"
    "unat (rb_next rb) < unat (rb_size rb)"
    "\<And>i. i < unat (rb_size rb) \<Longrightarrow> st ! i \<noteq> None \<longleftrightarrow> rb_full rb \<noteq> 0 \<or> i < unat (rb_next rb)"
  show ?thesis
  proof (cases "rb_full rb = 0")
    case True
    show ?thesis
    proof (cases "rb_next rb = 0")
      case False
      then have "unat (0::u32) < unat (rb_next rb)" by (simp add: unat_gt_0)
      from dump_loop_upto [OF st(3,2) this] st True False show ?thesis
        by (simp add: ring_buffer_dump_def rb_contents_def)
    qed (use st True in \<open>simp add: ring_buffer_dump_def rb_contents_def\<close>)
  next
    case False
    from dump_loop_wrap [OF st(3,2) order_refl st(3)] st False show ?thesis
      by (simp add: ring_buffer_dump_def rb_contents_def)
  qed
qed

lemma init_inv:
  "ring_buffer_init a b sz = Some rb \<Longrightarrow> rb_inv rb \<and> rb_contents rb = [] \<and> rb_size rb = sz"
  by (auto simp: ring_buffer_init_def rb_inv_def rb_contents_def wordsimps split: if_splits)

lemma rb_shape_init: "ring_buffer_init calloc_rb calloc_storage sz = Some rb \<Longrightarrow> rb_shape rb"
  by (auto simp: ring_buffer_init_def rb_shape_def wordsimps split: if_splits)

lemma rb_shape_push:
  assumes "rb_shape rb" "ring_buffer_push_back alloc rb data sz = Inr rb'"
  shows "rb_shape rb'"
proof -
  obtain st where st: "rb_storage rb = Some st" "length st = unat (rb_size rb)" "rb_next rb < rb_size rb"
    using assms(1) by (auto simp: rb_shape_def split: option.splits)
  then have "rb_next rb + 1 = rb_size rb \<or> rb_next rb + 1 < rb_size rb" by (metis inc_le le_less)
  with assms(2) st show ?thesis
    by (auto simp: ring_buffer_push_back_def rb_shape_def Let_def split: if_splits)
      (metis word_gt_0 word_not_simps(1))+
qed

lemma rb_shape_free: "rb_shape rb \<Longrightarrow> \<exists>r. ring_buffer_free (Some rb) = Inr r"
  by (auto simp: rb_shape_def ring_buffer_free_def split: option.splits)

text \<open>The text an entry of \<open>sz\<close> bytes is stored as.\<close>

definition rb_entry :: "string \<times> u32 \<Rightarrow> string" where
  "rb_entry = (\<lambda>(data, sz). cstr (take (min (unat sz) 8192) data))"

definition rb_entry_ok :: "string \<times> u32 \<Rightarrow> bool" where
  "rb_entry_ok = (\<lambda>(data, sz). min (unat sz) 8192 \<le> length data)"

text \<open>The state after a push whose allocation succeeds.\<close>

definition rb_push :: "string \<times> u32 \<Rightarrow> ring_buffer \<Rightarrow> ring_buffer" where
  "rb_push = (\<lambda>(data, sz) rb. projr (ring_buffer_push_back True rb data sz))"

lemma unat_clamped: "unat (if sz > MAX_LOG_ENTRY_SIZE then MAX_LOG_ENTRY_SIZE else sz) = min (unat sz) 8192"
  by (auto simp: MAX_LOG_ENTRY_SIZE_def wordsimps)

lemma push_back_eq:
  assumes "rb_storage rb = Some st" "unat (rb_next rb) < length st" "rb_entry_ok (data, sz)"
  shows "ring_buffer_push_back True rb data sz =
     Inr (let st' = st[unat (rb_next rb) := Some (take (min (unat sz) 8192) data @ [NUL])]
          in if rb_next rb + 1 = rb_size rb
             then rb\<lparr>rb_storage := Some st', rb_next := 0, rb_full := 1\<rparr>
             else rb\<lparr>rb_storage := Some st', rb_next := rb_next rb + 1\<rparr>)"
  using assms
  unfolding ring_buffer_push_back_def rb_entry_ok_def Let_def
  by (auto simp: unat_clamped min_le_iff_disj)

lemma push_refines:
  assumes inv: "rb_inv rb" and ok: "rb_entry_ok e"
  shows "ring_buffer_push_back True rb (fst e) (snd e) = Inr (rb_push e rb)"
    and "rb_inv (rb_push e rb)"
    and "rb_size (rb_push e rb) = rb_size rb"
    and "rb_contents (rb_push e rb) = lastn (unat (rb_size rb)) (rb_contents rb @ [rb_entry e])"
proof -
  obtain data sz where e: "e = (data, sz)" by fastforce
  obtain st where st: "rb_storage rb = Some st" "length st = unat (rb_size rb)"
    "unat (rb_next rb) < unat (rb_size rb)"
    "\<And>i. i < unat (rb_size rb) \<Longrightarrow> st ! i \<noteq> None \<longleftrightarrow> rb_full rb \<noteq> 0 \<or> i < unat (rb_next rb)"
    using rb_invE [OF inv] by metis
  define n where "n = unat (rb_next rb)"
  define s where "s = unat (rb_size rb)"
  define x where "x = Some (take (min (unat sz) 8192) data @ [NUL])"
  have ns: "n < s" "length st = s" using st by (simp_all add: n_def s_def)
  have nxt: "unat (rb_next rb + 1) = Suc n"
    using st(3) unfolding n_def by (intro unat_Suc_lt [of _ "rb_size rb"]) (simp add: wordsimps)
  then have wrap: "rb_next rb + 1 = rb_size rb \<longleftrightarrow> Suc n = s"
    by (auto simp: wordsimps s_def)
  have push: "ring_buffer_push_back True rb data sz =
     Inr (if Suc n = s
          then rb\<lparr>rb_storage := Some (st[n := x]), rb_next := 0, rb_full := 1\<rparr>
          else rb\<lparr>rb_storage := Some (st[n := x]), rb_next := rb_next rb + 1\<rparr>)"
    using push_back_eq [OF st(1)] st(2,3) ok by (simp add: e x_def wrap Let_def n_def)
  then have rb': "rb_push e rb =
     (if Suc n = s
      then rb\<lparr>rb_storage := Some (st[n := x]), rb_next := 0, rb_full := 1\<rparr>
      else rb\<lparr>rb_storage := Some (st[n := x]), rb_next := rb_next rb + 1\<rparr>)"
    by (simp add: rb_push_def e)
  from push rb' show "ring_buffer_push_back True rb (fst e) (snd e) = Inr (rb_push e rb)"
    by (simp add: e)
  show size: "rb_size (rb_push e rb) = rb_size rb"
    by (simp add: rb')
  show "rb_inv (rb_push e rb)"
    using st ns nxt by (auto simp: rb_inv_def rb' wordsimps nth_list_update x_def less_Suc_eq
        n_def [symmetric] s_def [symmetric])
  have upd: "map (\<lambda>j. cstr (the (st[n := x] ! j))) ks = map (\<lambda>j. cstr (the (st ! j))) ks"
    if "n \<notin> set ks" for ks
    using that by (intro map_cong refl) (metis nth_list_update_neq)
  have new: "cstr (the (st[n := x] ! n)) = rb_entry e"
    using ns by (simp add: x_def e rb_entry_def)
  have upto: "[0..<Suc n] = [0..<n] @ [n]" "[n..<s] = n # [Suc n..<s]"
    using ns by (simp_all add: upt_conv_Cons)
  have tail: "map (\<lambda>j. cstr (the (st[n := x] ! j))) [0..<Suc n] = map (\<lambda>j. cstr (the (st ! j))) [0..<n] @ [rb_entry e]"
    by (simp add: new upd)
  have old: "rb_contents rb = map (\<lambda>j. cstr (the (st ! j)))
      ((if rb_full rb \<noteq> 0 then [n..<s] else []) @ [0..<n])"
    by (simp add: rb_contents_def st n_def s_def)
  have "rb_contents (rb_push e rb) =
      map (\<lambda>j. cstr (the (st ! j))) ((if rb_full rb \<noteq> 0 then [Suc n..<s] else []) @ [0..<n]) @ [rb_entry e]"
  proof (cases "Suc n = s")
    case True
    then have "rb_contents (rb_push e rb) = map (\<lambda>j. cstr (the (st[n := x] ! j))) [0..<Suc n]"
      by (simp add: rb_contents_def rb' s_def)
    then have "rb_contents (rb_push e rb) = map (\<lambda>j. cstr (the (st ! j))) [0..<n] @ [rb_entry e]"
      unfolding tail .
    moreover have "[Suc n..<s] = []" using True by simp
    ultimately show ?thesis by simp
  next
    case False
    then have "rb_contents (rb_push e rb) = map (\<lambda>j. cstr (the (st[n := x] ! j)))
        ((if rb_full rb \<noteq> 0 then [Suc n..<s] else []) @ [0..<Suc n])"
      by (simp add: rb_contents_def rb' nxt s_def del: upt_Suc)
    then show ?thesis by (simp add: upd tail del: upt_Suc)
  qed
  also have "\<dots> = lastn s (rb_contents rb @ [rb_entry e])"
    using ns by (simp add: old lastn_def upto(2))
  finally show "rb_contents (rb_push e rb) = lastn (unat (rb_size rb)) (rb_contents rb @ [rb_entry e])"
    by (simp add: s_def)
qed

interpretation ring: bounded_log rb_push rb_contents rb_entry "\<lambda>rb. unat (rb_size rb)" rb_inv rb_entry_ok
proof unfold_locales
  show "length (rb_contents rb) \<le> unat (rb_size rb)" if "rb_inv rb" for rb
    using that by (auto simp: length_rb_contents elim!: rb_invE)
qed (simp_all add: push_refines)

lemma push_list_fold:
  "rb_inv rb \<Longrightarrow> \<forall>e \<in> set es. rb_entry_ok e \<Longrightarrow>
   ring_buffer_push_list rb es = Inr (fold rb_push es rb)"
proof (induction rb es rule: ring_buffer_push_list.induct)
  case (2 rb data sz es)
  then show ?case
    using push_refines [of rb "(data, sz)"] by simp
qed simp

section \<open>Properties\<close>

text \<open>
  C12. Appending a line to a well-formed buffer succeeds, keeps the buffer well-formed and of the same
  size, and refines appending to a list bounded to \<open>size\<close> entries: the oldest line is dropped exactly
  when the buffer is full, and a line longer than 8192 bytes is cut.
\<close>

theorem ring_push_refines_bounded_list:
  assumes "rb_inv rb" and "min (unat sz) 8192 \<le> length data"
  shows "\<exists>rb'. ring_buffer_push_back True rb data sz = Inr rb' \<and> rb_inv rb' \<and> rb_size rb' = rb_size rb \<and>
           rb_contents rb' =
             lastn (unat (rb_size rb)) (rb_contents rb @ [cstr (take (min (unat sz) 8192) data)])"
  using push_refines [of rb "(data, sz)"] assms
  by (auto simp: rb_entry_ok_def rb_entry_def)

text \<open>
  C13. After any sequence of appends to a fresh buffer of size \<open>sz\<close>, dumping it terminates and prints
  the last \<open>sz\<close> lines, oldest first, and nothing else.
\<close>

theorem ring_dump_prints_last_lines:
  assumes "ring_buffer_init True True sz = Some rb" and "\<forall>(data, n) \<in> set es. min (unat n) 8192 \<le> length data"
  shows "\<exists>rb'. ring_buffer_push_list rb es = Inr rb' \<and>
           ring_buffer_dump (Some rb') =
             Some (Inr (lastn (unat sz) (map (\<lambda>(data, n). cstr (take (min (unat n) 8192) data)) es)))"
proof -
  have inv: "rb_inv rb" and rb: "rb_contents rb = []" "rb_size rb = sz"
    using init_inv [OF assms(1)] by simp_all
  have ok: "\<forall>e \<in> set es. rb_entry_ok e"
    using assms(2) by (auto simp: rb_entry_ok_def)
  show ?thesis
    using push_list_fold [OF inv ok] ring.push_all [OF inv ok] dump_contents [of "fold rb_push es rb"]
    by (simp add: rb rb_entry_def [symmetric])
qed

text \<open>
  C38. When the allocation of a line fails in a full buffer, the slot is left null and the next dump
  passes that null pointer to \<open>printf\<close> as a string, which is undefined.
\<close>

theorem ring_dump_after_failed_alloc:
  assumes "rb_inv rb" and "rb_full rb \<noteq> 0"
  shows "\<exists>rb'. ring_buffer_push_back False rb data sz = Inr rb' \<and>
           ring_buffer_dump (Some rb') = Some (Inl Undef)"
  using assms(1)
proof (rule rb_invE)
  fix st
  assume "rb_storage rb = Some st" "length st = unat (rb_size rb)" "unat (rb_next rb) < unat (rb_size rb)"
  with assms(2) show ?thesis
    by (simp add: ring_buffer_push_back_def ring_buffer_dump_def dump_loop.simps Let_def)
qed

text \<open>
  Freeing a well-formed buffer releases every allocated line, the array and the struct, each
  exactly once, and clears the caller's pointer.
\<close>

theorem ring_free_releases_everything:
  assumes "rb_inv rb" and "rb_storage rb = Some st"
  shows "\<exists>bs. ring_buffer_free (Some rb) = Inr (bs, None) \<and> distinct bs \<and>
           set bs = Entry ` {i. i < length st \<and> st ! i \<noteq> None} \<union> {Storage_array, Ring_struct}"
proof -
  have len: "length st = unat (rb_size rb)"
    using assms by (auto elim: rb_invE)
  show ?thesis
    by (auto simp: ring_buffer_free_def assms(2) len distinct_map inj_on_def)
qed

section \<open>Witnesses\<close>

text \<open>A buffer of two lines, full after two appends.\<close>

definition rb_two :: ring_buffer where
  "rb_two = \<lparr>rb_storage = Some [Some (''a'' @ [NUL]), Some (''b'' @ [NUL])],
            rb_size = 2, rb_next = 0, rb_full = 1\<rparr>"

lemma rb_two_inv: "rb_inv rb_two"
  by (auto simp: rb_two_def rb_inv_def wordsimps less_Suc_eq)

theorem ring_push_refines_bounded_list_witness:
  "\<exists>rb'. ring_buffer_push_back True rb_two ''cd'' 2 = Inr rb' \<and> rb_inv rb' \<and> rb_size rb' = rb_size rb_two \<and>
         rb_contents rb' = [''b'', ''cd'']"
  using ring_push_refines_bounded_list [OF rb_two_inv, of 2 "''cd''"]
  by (simp add: rb_contents_def rb_two_def lastn_def cstr_def upt_rec)

theorem ring_dump_prints_last_lines_witness:
  "\<exists>rb rb'. ring_buffer_init True True 2 = Some rb \<and>
     ring_buffer_push_list rb [(''x'', 1), (''yy'', 2), (''z'', 1)] = Inr rb' \<and>
     ring_buffer_dump (Some rb') = Some (Inr [''yy'', ''z''])"
proof -
  obtain rb where rb: "ring_buffer_init True True 2 = Some rb"
    by (simp add: ring_buffer_init_def wordsimps)
  show ?thesis
    using ring_dump_prints_last_lines [OF rb, of "[(''x'', 1), (''yy'', 2), (''z'', 1)]"] rb
    by (simp add: lastn_def cstr_def)
qed

theorem ring_dump_after_failed_alloc_witness:
  "\<exists>rb'. ring_buffer_push_back False rb_two ''c'' 1 = Inr rb' \<and>
         ring_buffer_dump (Some rb') = Some (Inl Undef)"
  using ring_dump_after_failed_alloc [OF rb_two_inv] by (simp add: rb_two_def)

theorem ring_free_releases_everything_witness:
  "\<exists>bs. ring_buffer_free (Some rb_two) = Inr (bs, None) \<and> distinct bs \<and>
        set bs = {Entry 0, Entry 1, Storage_array, Ring_struct}"
proof -
  have "{i. i < length [Some (''a'' @ [NUL]), Some (''b'' @ [NUL])] \<and>
           [Some (''a'' @ [NUL]), Some (''b'' @ [NUL])] ! i \<noteq> None} = {0, 1}"
    by (auto simp: less_Suc_eq)
  then show ?thesis
    using ring_free_releases_everything [OF rb_two_inv, of "[Some (''a'' @ [NUL]), Some (''b'' @ [NUL])]"]
    by (simp add: rb_two_def insert_commute)
qed

end
