(* ===== verification/Logging.thy ===== *)
theory Logging
  imports World Ring_Buffer
begin

text \<open>
  The logger and its flight recorder, src/src/logging.c. The file's static variables are the record
  \<open>logging\<close>; output to the log stream is a list of events. A log call returns the new state, or ends the
  process in a state whose output can still be read (\<open>Inl\<close>). Formatting of the message itself is the
  C library's: a call carries the text that its format and arguments produce, or \<open>None\<close> when
  \<open>vsnprintf\<close> fails. A fatal log ends with \<open>exit\<close>, as in a build without DEBUG; with DEBUG the last call is
  \<open>abort\<close> instead.
\<close>

section \<open>State\<close>

text \<open>enum LogSeverity\<close>

definition LOG_DEBUG :: int where "LOG_DEBUG = 0"
definition LOG_INFO :: int where "LOG_INFO = 1"
definition LOG_WARNING :: int where "LOG_WARNING = 2"
definition LOG_ERROR :: int where "LOG_ERROR = 3"
definition LOG_STATS :: int where "LOG_STATS = 4"
definition LOG_FATAL :: int where "LOG_FATAL = 5"
definition LOG_MAX :: int where "LOG_MAX = 6"

definition LOG_FLUSH_LEVEL :: int where "LOG_FLUSH_LEVEL = LOG_WARNING"

definition LOG_LINE_SIZE :: nat where "LOG_LINE_SIZE = 2048"

lemmas log_consts = LOG_DEBUG_def LOG_INFO_def LOG_WARNING_def LOG_ERROR_def LOG_STATS_def
  LOG_FATAL_def LOG_MAX_def LOG_FLUSH_LEVEL_def LOG_LINE_SIZE_def

definition SeverityStr :: "string list" where
  "SeverityStr = [''[D]'', ''[I]'', ''[W]'', ''[E]'', ''[S]'', ''[F]'']"

datatype log_io = Line int string | Fflush int | Fclose int

text \<open>The stream is identified by the descriptor it was opened on.\<close>

record logging =
  logfile :: "int option"
  loglevel :: int
  flight_recorder :: "ring_buffer option"
  lg_io :: "log_io list"
  lg_calls :: "call list"

text \<open>The state of the static variables when the program starts.\<close>

definition logging_start :: logging where
  "logging_start = \<lparr>logfile = None, loglevel = LOG_ERROR, flight_recorder = None, lg_io = [], lg_calls = []\<rparr>"

text \<open>Time of day, and whether \<open>fdopen\<close> of standard output and the allocation of an entry succeed.\<close>

record log_env =
  tv_sec :: u64
  tv_usec :: u64
  fdopen_ok :: bool
  entry_alloc :: bool

definition write_io :: "log_io list \<Rightarrow> logging \<Rightarrow> logging" where
  "write_io ios s = s\<lparr>lg_io := lg_io s @ ios\<rparr>"

type_synonym log_res = "((fault \<times> logging) + logging) option"

section \<open>Writing a line\<close>

definition log_prefix :: "log_env \<Rightarrow> string \<Rightarrow> nat \<Rightarrow> int \<Rightarrow> string" where
  "log_prefix env file line severity =
     SeverityStr ! nat severity @ '' '' @ pad_left 8 CHR '' '' (show_nat (unat (tv_sec env))) @ ''.'' @
     pad_left 6 CHR ''0'' (show_nat (unat (tv_usec env))) @ '' '' @ file @ '':'' @ show_nat line @ '' ''"

text \<open>The contents of \<open>buff\<close> up to its NUL, and \<open>buff_pos\<close>, after both parts are formatted.\<close>

definition fill_buff :: "string \<Rightarrow> string \<Rightarrow> string \<times> nat" where
  "fill_buff prefix msg =
     (let buff = take (LOG_LINE_SIZE - 1) (prefix @ msg);
          buff_pos = length prefix + length msg
      in if buff_pos \<ge> LOG_LINE_SIZE
         then (buff[(LOG_LINE_SIZE - 1) - 1 := CHR ''$''], LOG_LINE_SIZE - 1)
         else (buff, buff_pos))"

text \<open>Storing the line in the flight recorder, if there is one.\<close>

definition record_line :: "log_env \<Rightarrow> string \<Rightarrow> nat \<Rightarrow> logging \<Rightarrow> logging res" where
  "record_line env buff buff_pos s =
     (case flight_recorder s of
        None \<Rightarrow> Inr s
      | Some rb \<Rightarrow>
          bind_res (ring_buffer_push_back (entry_alloc env) rb (buff @ [NUL]) (word_of_nat buff_pos))
            (\<lambda>rb'. Inr (s\<lparr>flight_recorder := Some rb'\<rparr>)))"

text \<open>Printing the flight recorder on the log stream; a dump with nothing to print does not flush.\<close>

definition dump_recorder :: "int \<Rightarrow> logging \<Rightarrow> log_res" where
  "dump_recorder fd s =
     (case ring_buffer_dump (flight_recorder s) of
        None \<Rightarrow> None
      | Some (Inl e) \<Rightarrow> Some (Inl (e, s))
      | Some (Inr out) \<Rightarrow>
          Some (Inr (write_io (map (Line fd) out @ (if out = [] then [] else [Fflush fd])) s)))"

text \<open>
  The function \<open>_log\<close>. The recursive call is the FLOG for an unknown severity, which exits even if the
  call should return.
\<close>

function log_line :: "log_env \<Rightarrow> string \<Rightarrow> nat \<Rightarrow> int \<Rightarrow> string option \<Rightarrow> logging \<Rightarrow> log_res" where
  "log_line env file line severity msg s =
     (if severity < loglevel s \<and> flight_recorder s = None then Some (Inr s)
      else if severity < 0 \<or> severity \<ge> LOG_MAX
      then (case log_line env ''logging.c'' 125 LOG_FATAL
                   (Some (''Unknown log severity: '' @ show_int severity)) s of
              None \<Rightarrow> None
            | Some (Inl e) \<Rightarrow> Some (Inl e)
            | Some (Inr s') \<Rightarrow> Some (Inl (Fatal, s')))
      else if logfile s = None \<and> \<not> fdopen_ok env then Some (Inl (Aborted, s))
      else
        (let fd = (case logfile s of None \<Rightarrow> 1 | Some fd \<Rightarrow> fd);
             s1 = s\<lparr>logfile := Some fd\<rparr>;
             prefix = log_prefix env file line severity
         in if length prefix \<ge> LOG_LINE_SIZE div 2 then Some (Inl (Aborted, s1))
            else
              (case msg of
                 None \<Rightarrow> Some (Inl (Aborted, s1))
               | Some text \<Rightarrow>
                   (let (buff, buff_pos) = fill_buff prefix text
                    in case record_line env buff buff_pos s1 of
                         Inl e \<Rightarrow> Some (Inl (e, s1))
                       | Inr s2 \<Rightarrow>
                           if severity < loglevel s2 then Some (Inr s2)
                           else
                             (let s3 = write_io (Line fd (cstr buff) #
                                         (if severity \<ge> LOG_FLUSH_LEVEL then [Fflush fd] else [])) s2
                              in if severity = LOG_FATAL
                                 then (case (case flight_recorder s3 of
                                               None \<Rightarrow> Some (Inr s3)
                                             | Some rb \<Rightarrow> dump_recorder fd s3) of
                                         None \<Rightarrow> None
                                       | Some (Inl e) \<Rightarrow> Some (Inl e)
                                       | Some (Inr s4) \<Rightarrow> Some (Inl (Fatal, s4)))
                                 else Some (Inr s3))))))"
  by pat_completeness auto
termination
  by (relation "measure (\<lambda>(env, file, line, severity, msg, s). if severity < 0 \<or> severity \<ge> LOG_MAX then 1 else 0)")
    (auto simp: log_consts)

declare log_line.simps [simp del]

text \<open>The macro FLOG.\<close>

definition FLOG :: "log_env \<Rightarrow> string \<Rightarrow> nat \<Rightarrow> string option \<Rightarrow> logging \<Rightarrow> log_res" where
  "FLOG env file line msg s =
     (case log_line env file line LOG_FATAL msg s of
        None \<Rightarrow> None
      | Some (Inl e) \<Rightarrow> Some (Inl e)
      | Some (Inr s') \<Rightarrow> Some (Inl (Fatal, s')))"

section \<open>Starting and stopping\<close>

definition logging_timer_cb :: "logging \<Rightarrow> logging" where
  "logging_timer_cb s = (case logfile s of None \<Rightarrow> s | Some fd \<Rightarrow> write_io [Fflush fd] s)"

definition logging_flight_recorder_dump :: "log_env \<Rightarrow> logging \<Rightarrow> log_res" where
  "logging_flight_recorder_dump env s =
     (case flight_recorder s of
        Some rb \<Rightarrow>
          (case log_line env ''logging.c'' 44 LOG_INFO (Some ''Flight recorder dump'') s of
             None \<Rightarrow> None
           | Some (Inl e) \<Rightarrow> Some (Inl e)
           | Some (Inr s') \<Rightarrow>
               (case logfile s' of
                  None \<Rightarrow> Some (Inl (Undef, s'))
                | Some fd \<Rightarrow> dump_recorder fd s'))
      | None \<Rightarrow> log_line env ''logging.c'' 47 LOG_INFO (Some ''Flight recorder is disabled'') s)"

definition logging_flight_recorder_dump_async_cb :: "log_env \<Rightarrow> logging \<Rightarrow> log_res" where
  "logging_flight_recorder_dump_async_cb = logging_flight_recorder_dump"

definition logging_flight_recorder_dump_cb :: "logging \<Rightarrow> logging" where
  "logging_flight_recorder_dump_cb s = s\<lparr>lg_calls := lg_calls s @ [Ev_async_send Flight_recorder_async]\<rparr>"

text \<open>\<open>env0\<close> and \<open>env1\<close> are the environments of the two debug lines.\<close>

definition logging_events_init :: "log_env \<Rightarrow> log_env \<Rightarrow> logging \<Rightarrow> log_res" where
  "logging_events_init env0 env1 s =
     (let start_rest = (\<lambda>s. case log_line env1 ''logging.c'' 75 LOG_DEBUG (Some ''starting SIGUSR2 handler'') s of
                              None \<Rightarrow> None
                            | Some (Inl e) \<Rightarrow> Some (Inl e)
                            | Some (Inr s') \<Rightarrow>
                                Some (Inr (s'\<lparr>lg_calls := lg_calls s' @
                                   [Ev_start Flight_recorder_async, Ev_start Sigusr2]\<rparr>)))
      in if loglevel s < LOG_FLUSH_LEVEL
         then (case log_line env0 ''logging.c'' 70 LOG_DEBUG (Some ''starting periodic log flush timer'') s of
                 None \<Rightarrow> None
               | Some (Inl e) \<Rightarrow> Some (Inl e)
               | Some (Inr s') \<Rightarrow>
                   start_rest (s'\<lparr>lg_calls := lg_calls s' @ [Ev_set Logging_timer 0 10, Ev_start Logging_timer]\<rparr>))
         else start_rest s)"

definition logging_events_cleanup :: "logging \<Rightarrow> logging" where
  "logging_events_cleanup s =
     s\<lparr>lg_calls := lg_calls s @ [Ev_stop Logging_timer, Ev_stop Sigusr2, Ev_stop Flight_recorder_async]\<rparr>"

text \<open>\<open>opened\<close> says whether \<open>fdopen\<close> succeeds; the last two booleans are the allocations of the recorder.\<close>

definition logging_init :: "bool \<Rightarrow> bool \<Rightarrow> bool \<Rightarrow> int \<Rightarrow> int \<Rightarrow> u32 \<Rightarrow> logging \<Rightarrow> logging" where
  "logging_init opened calloc_rb calloc_storage fd level flight_recorder_size s =
     (let s1 = (case logfile s of None \<Rightarrow> s | Some old \<Rightarrow> (write_io [Fclose old] s)\<lparr>logfile := None\<rparr>)
      in if \<not> opened then s1\<lparr>logfile := None\<rparr>
         else s1\<lparr>logfile := Some fd, loglevel := level,
                 flight_recorder := ring_buffer_init calloc_rb calloc_storage flight_recorder_size\<rparr>)"

definition logging_cleanup :: "logging \<Rightarrow> logging res" where
  "logging_cleanup s =
     bind_res (case flight_recorder s of
                 None \<Rightarrow> Inr s
               | Some rb \<Rightarrow>
                   bind_res (ring_buffer_free (Some rb)) (\<lambda>(blocks, rbp). Inr (s\<lparr>flight_recorder := None\<rparr>)))
       (\<lambda>s1. Inr (case logfile s1 of
                    None \<Rightarrow> s1\<lparr>logfile := None\<rparr>
                  | Some fd \<Rightarrow> (write_io [Fclose fd] s1)\<lparr>logfile := None\<rparr>))"

definition logging_debug_enabled :: "logging \<Rightarrow> bool" where
  "logging_debug_enabled s \<longleftrightarrow> loglevel s \<le> LOG_DEBUG \<or> flight_recorder s \<noteq> None"

section \<open>Specification\<close>

text \<open>The line a message becomes: cut to 2047 characters, the last of them a dollar sign.\<close>

definition log_text :: "string \<Rightarrow> string \<Rightarrow> string" where
  "log_text prefix msg =
     (if length (prefix @ msg) < LOG_LINE_SIZE then prefix @ msg else take 2046 (prefix @ msg) @ ''$'')"

definition logger_ok :: "logging \<Rightarrow> bool" where
  "logger_ok s \<longleftrightarrow> (\<forall>rb. flight_recorder s = Some rb \<longrightarrow> rb_inv rb)"

text \<open>
  The weaker condition that holds whatever allocations fail: the flight recorder is an array of its size
  with a valid index.
\<close>

definition logger_shape :: "logging \<Rightarrow> bool" where
  "logger_shape s \<longleftrightarrow> (\<forall>rb. flight_recorder s = Some rb \<longrightarrow> rb_shape rb)"

text \<open>The lines in the flight recorder and how many it can hold.\<close>

definition recorded :: "logging \<Rightarrow> string list" where
  "recorded s = (case flight_recorder s of None \<Rightarrow> [] | Some rb \<Rightarrow> rb_contents rb)"

definition capacity :: "logging \<Rightarrow> nat" where
  "capacity s = (case flight_recorder s of None \<Rightarrow> 0 | Some rb \<Rightarrow> unat (rb_size rb))"

definition out_fd :: "logging \<Rightarrow> int" where
  "out_fd s = (case logfile s of None \<Rightarrow> 1 | Some fd \<Rightarrow> fd)"

lemma logger_shape_simps [simp]:
  "logger_shape (write_io ios s) = logger_shape s" "logger_shape (s\<lparr>logfile := f\<rparr>) = logger_shape s"
  "logger_shape (s\<lparr>lg_calls := cs\<rparr>) = logger_shape s"
  by (simp_all add: logger_shape_def write_io_def)

lemma logger_shape_init: "logger_shape (logging_init opened calloc_rb calloc_storage fd level sz logging_start)"
  using rb_shape_init by (auto simp: logger_shape_def logging_init_def logging_start_def Let_def)

lemma logger_shape_record:
  "record_line env buff n s = Inr s' \<Longrightarrow> logger_shape s \<Longrightarrow> logger_shape s'"
  using rb_shape_push by (fastforce simp: record_line_def logger_shape_def split: option.splits)

lemma logger_shape_dump: "dump_recorder fd s = Some (Inr s') \<Longrightarrow> logger_shape s' = logger_shape s"
  by (auto simp: dump_recorder_def split: option.splits sum.splits)

lemma logger_shape_log_line:
  "log_line env file line severity msg s = Some (Inr s') \<Longrightarrow> logger_shape s \<Longrightarrow> logger_shape s'"
  using logger_shape_record
  by (subst (asm) log_line.simps)
    (auto simp: Let_def split: if_split_asm option.splits sum.splits prod.splits)

lemma logger_shape_dump_async:
  "logging_flight_recorder_dump_async_cb env s = Some (Inr s') \<Longrightarrow> logger_shape s \<Longrightarrow> logger_shape s'"
  by (auto simp: logging_flight_recorder_dump_async_cb_def logging_flight_recorder_dump_def logger_shape_dump
      split: option.splits sum.splits dest: logger_shape_log_line)

lemma logger_shape_events_init:
  "logging_events_init env0 env1 s = Some (Inr s') \<Longrightarrow> logger_shape s \<Longrightarrow> logger_shape s'"
  by (auto simp: logging_events_init_def Let_def split: if_split_asm option.splits sum.splits dest!: logger_shape_log_line)

lemma logger_shape_callbacks [simp]:
  "logger_shape (logging_timer_cb s) = logger_shape s" "logger_shape (logging_flight_recorder_dump_cb s) = logger_shape s"
  "logger_shape (logging_events_cleanup s) = logger_shape s"
  by (auto simp: logging_timer_cb_def logging_flight_recorder_dump_cb_def logging_events_cleanup_def split: option.split)

lemma logging_cleanup_returns:
  assumes "logger_shape s"
  shows "\<exists>s'. logging_cleanup s = Inr s'"
proof (cases "flight_recorder s")
  case None
  then show ?thesis by (simp add: logging_cleanup_def)
next
  case (Some rb)
  with assms obtain r where "ring_buffer_free (Some rb) = Inr r" using rb_shape_free [of rb] by (auto simp: logger_shape_def)
  with Some show ?thesis by (cases r) (simp add: logging_cleanup_def)
qed

lemma length_log_text: "length (log_text prefix msg) \<le> 2047"
  by (auto simp: log_text_def LOG_LINE_SIZE_def)

lemma fill_buff_text: "fill_buff prefix msg = (log_text prefix msg, length (log_text prefix msg))"
proof (cases "length (prefix @ msg) < LOG_LINE_SIZE")
  case True
  then show ?thesis by (simp add: fill_buff_def log_text_def Let_def LOG_LINE_SIZE_def)
next
  case False
  define xs where "xs = prefix @ msg"
  have len: "2048 \<le> length xs" using False by (simp add: xs_def LOG_LINE_SIZE_def)
  have "(take 2047 xs)[2046 := CHR ''$''] = take 2046 xs @ [CHR ''$'']"
    using len by (simp add: list_eq_iff_nth_eq nth_list_update nth_append less_Suc_eq)
  then show ?thesis
    using len by (simp add: fill_buff_def log_text_def Let_def LOG_LINE_SIZE_def xs_def [symmetric])
      (simp add: xs_def)
qed

lemma prefix_fits:
  assumes "length file \<le> 900" "line < 10 ^ 9" "0 \<le> severity" "severity < LOG_MAX"
  shows "length (log_prefix env file line severity) < LOG_LINE_SIZE div 2"
proof -
  have u64: "length (show_nat (unat (w :: u64))) \<le> 20" for w
  proof -
    have "unat w < 2 ^ 64" using unsigned_less [of w, where ?'a = nat] by simp
    then have "unat w < 10 ^ 20" by simp
    then show ?thesis by (rule length_show_nat) simp
  qed
  have "length (SeverityStr ! nat severity) = 3"
  proof -
    have "nat severity < 6" using assms(3,4) by (simp add: log_consts)
    then have "nat severity \<in> {0, 1, 2, 3, 4, 5}" by auto
    then show ?thesis by (auto simp: SeverityStr_def)
  qed
  moreover have "length (show_nat line) \<le> 9" using assms(2) by (intro length_show_nat) simp_all
  moreover have "length (pad_left 8 CHR '' '' (show_nat (unat (tv_sec env)))) \<le> 20"
    "length (pad_left 6 CHR ''0'' (show_nat (unat (tv_usec env)))) \<le> 20"
    using u64 [of "tv_sec env"] u64 [of "tv_usec env"] by (simp_all add: pad_left_def)
  ultimately show ?thesis
    using assms(1) unfolding log_prefix_def LOG_LINE_SIZE_def length_append by simp
qed

text \<open>The recorder after a line is stored.\<close>

definition stored :: "string \<Rightarrow> logging \<Rightarrow> logging" where
  "stored text s = s\<lparr>flight_recorder := map_option (rb_push (text @ [NUL], word_of_nat (length text))) (flight_recorder s)\<rparr>"

lemma record_line_stored:
  assumes "logger_ok s" "entry_alloc env" "length text \<le> 2047"
  shows "record_line env text (length text) s = Inr (stored text s)"
    and "logger_ok (stored text s)"
    and "recorded (stored text s) = lastn (capacity s) (recorded s @ [cstr text])"
    and "capacity (stored text s) = capacity s"
proof -
  let ?e = "(text @ [NUL], word_of_nat (length text) :: u32)"
  have n: "unat (word_of_nat (length text) :: u32) = length text" using assms(3) by (simp add: unat_of_nat)
  have e: "rb_entry_ok ?e" "rb_entry ?e = cstr text"
    using assms(3) by (simp_all add: rb_entry_ok_def rb_entry_def n)
  show "record_line env text (length text) s = Inr (stored text s)"
    using assms(1,2) push_refines(1) [OF _ e(1)]
    by (auto simp: record_line_def stored_def logger_ok_def split: option.splits)
  show "logger_ok (stored text s)"
    using assms(1) push_refines(2) [OF _ e(1)] by (auto simp: stored_def logger_ok_def)
  show "recorded (stored text s) = lastn (capacity s) (recorded s @ [cstr text])"
    using assms(1) push_refines(4) [OF _ e(1)]
    by (auto simp: recorded_def capacity_def stored_def logger_ok_def e(2) lastn_def split: option.splits)
  show "capacity (stored text s) = capacity s"
    using assms(1) push_refines(3) [OF _ e(1)]
    by (auto simp: capacity_def stored_def logger_ok_def split: option.splits)
qed

lemma stored_simps [simp]:
  "logfile (stored text s) = logfile s" "loglevel (stored text s) = loglevel s"
  "lg_io (stored text s) = lg_io s" "lg_calls (stored text s) = lg_calls s"
  "flight_recorder (stored text s) = None \<longleftrightarrow> flight_recorder s = None"
  by (simp_all add: stored_def)

lemma write_io_simps [simp]:
  "logfile (write_io ios s) = logfile s" "loglevel (write_io ios s) = loglevel s"
  "flight_recorder (write_io ios s) = flight_recorder s" "lg_io (write_io ios s) = lg_io s @ ios"
  "recorded (write_io ios s) = recorded s" "logger_ok (write_io ios s) = logger_ok s"
  "capacity (write_io ios s) = capacity s"
  by (simp_all add: write_io_def recorded_def logger_ok_def capacity_def)

lemma with_logfile_simps [simp]:
  "recorded (s\<lparr>logfile := f\<rparr>) = recorded s" "logger_ok (s\<lparr>logfile := f\<rparr>) = logger_ok s"
  "capacity (s\<lparr>logfile := f\<rparr>) = capacity s"
  by (simp_all add: recorded_def logger_ok_def capacity_def)

lemma dump_recorder_contents:
  "logger_ok s \<Longrightarrow> dump_recorder fd s =
     Some (Inr (write_io (map (Line fd) (recorded s) @ (if recorded s = [] then [] else [Fflush fd])) s))"
  using dump_contents
  by (cases "flight_recorder s") (auto simp: dump_recorder_def recorded_def logger_ok_def ring_buffer_dump_def)

text \<open>A call whose line can be formatted and stored.\<close>

definition log_env_ok :: "log_env \<Rightarrow> string \<Rightarrow> nat \<Rightarrow> logging \<Rightarrow> bool" where
  "log_env_ok env file line s \<longleftrightarrow>
     entry_alloc env \<and> length file \<le> 900 \<and> line < 10 ^ 9 \<and> (logfile s \<noteq> None \<or> fdopen_ok env)"

definition log_out :: "log_env \<Rightarrow> string \<Rightarrow> nat \<Rightarrow> int \<Rightarrow> string \<Rightarrow> string" where
  "log_out env file line severity msg = log_text (log_prefix env file line severity) msg"

lemma log_line_valid:
  assumes "logger_ok s" "log_env_ok env file line s" "0 \<le> severity" "severity < LOG_MAX"
    and "\<not> (severity < loglevel s \<and> flight_recorder s = None)"
  shows "log_line env file line severity (Some msg) s =
     (let fd = out_fd s; t = log_out env file line severity msg;
          s2 = stored t (s\<lparr>logfile := Some fd\<rparr>);
          s3 = write_io (Line fd (cstr t) # (if severity \<ge> LOG_FLUSH_LEVEL then [Fflush fd] else [])) s2
      in if severity < loglevel s then Some (Inr s2)
         else if severity = LOG_FATAL
         then Some (Inl (Fatal,
                (if flight_recorder s = None then s3
                 else write_io (map (Line fd) (recorded s3) @ (if recorded s3 = [] then [] else [Fflush fd])) s3)))
         else Some (Inr s3))"
proof -
  let ?fd = "out_fd s" and ?t = "log_out env file line severity msg"
  let ?s1 = "s\<lparr>logfile := Some ?fd\<rparr>"
  have env: "entry_alloc env" "logfile s \<noteq> None \<or> fdopen_ok env"
    using assms(2) by (simp_all add: log_env_ok_def)
  have short: "length (log_prefix env file line severity) < LOG_LINE_SIZE div 2"
    using assms(2-4) by (intro prefix_fits) (simp_all add: log_env_ok_def)
  have rec: "record_line env ?t (length ?t) ?s1 = Inr (stored ?t ?s1)" "logger_ok (stored ?t ?s1)"
    using record_line_stored [of ?s1 env ?t] assms(1) env(1) length_log_text by (simp_all add: log_out_def)
  have fb: "fill_buff (log_prefix env file line severity) msg = (?t, length ?t)"
    by (simp add: fill_buff_text log_out_def)
  have fd: "(case logfile s of None \<Rightarrow> 1 | Some fd \<Rightarrow> fd) = ?fd" by (simp add: out_fd_def)
  have guards: "\<not> (severity < 0 \<or> severity \<ge> LOG_MAX)" "\<not> (logfile s = None \<and> \<not> fdopen_ok env)"
      "\<not> length (log_prefix env file line severity) \<ge> LOG_LINE_SIZE div 2"
    using assms(3,4) env(2) short by auto
  have "log_line env file line severity (Some msg) s =
      (let s2 = stored ?t ?s1; s3 = write_io (Line ?fd (cstr ?t) # (if severity \<ge> LOG_FLUSH_LEVEL then [Fflush ?fd] else [])) s2
       in if severity < loglevel s2 then Some (Inr s2)
          else if severity = LOG_FATAL
          then (case (case flight_recorder s3 of None \<Rightarrow> Some (Inr s3) | Some rb \<Rightarrow> dump_recorder ?fd s3) of
                  None \<Rightarrow> None | Some (Inl e) \<Rightarrow> Some (Inl e) | Some (Inr s4) \<Rightarrow> Some (Inl (Fatal, s4)))
          else Some (Inr s3))"
    unfolding Let_def
    by (subst log_line.simps) (simp only: if_not_P [OF assms(5)] guards if_False Let_def fd option.case fb prod.case rec(1) sum.case)
  moreover define t s2 where "t = ?t" and "s2 = stored t ?s1"
  moreover have "flight_recorder s = None \<longleftrightarrow> flight_recorder s2 = None" "loglevel s2 = loglevel s" "logger_ok s2"
    using rec(2) by (simp_all add: s2_def t_def)
  ultimately show ?thesis
    unfolding t_def [symmetric] s2_def [symmetric] Let_def
    by (cases "flight_recorder s2") (auto simp: dump_recorder_contents)
qed

section \<open>Properties\<close>

text \<open>
  C17. What a log call that does not end the process does: the line reaches the log stream exactly when its
  severity is at least the log level, is flushed from warnings upwards, and reaches the flight recorder
  whatever its severity, where it replaces the oldest line if there is no room. The line has at most 2047
  characters.
\<close>

theorem log_line_effect:
  assumes "logger_ok s" "log_env_ok env file line s" "0 \<le> severity" "severity < LOG_FATAL"
  shows "\<exists>s' t. log_line env file line severity (Some msg) s = Some (Inr s') \<and>
     t = log_out env file line severity msg \<and> length t \<le> 2047 \<and>
     logger_ok s' \<and> loglevel s' = loglevel s \<and>
     lg_io s' = lg_io s @ (if severity < loglevel s then []
       else Line (out_fd s) (cstr t) # (if LOG_WARNING \<le> severity then [Fflush (out_fd s)] else [])) \<and>
     recorded s' = lastn (capacity s) (recorded s @ [cstr t])"
proof (cases "severity < loglevel s \<and> flight_recorder s = None")
  case True
  then have "log_line env file line severity (Some msg) s = Some (Inr s)" by (simp add: log_line.simps)
  then show ?thesis
    using True assms(1) length_log_text
    by (auto simp: recorded_def capacity_def lastn_def log_out_def)
next
  case False
  let ?t = "log_out env file line severity msg"
  let ?s1 = "s\<lparr>logfile := Some (out_fd s)\<rparr>"
  have len: "length ?t \<le> 2047" using length_log_text by (simp add: log_out_def)
  have st: "logger_ok (stored ?t ?s1)" "recorded (stored ?t ?s1) = lastn (capacity s) (recorded s @ [cstr ?t])"
    using record_line_stored [of ?s1 env ?t] assms(1,2) len by (simp_all add: log_env_ok_def)
  have "severity < LOG_MAX" "severity \<noteq> LOG_FATAL" using assms(4) by (simp_all add: log_consts)
  then show ?thesis
    using log_line_valid [OF assms(1-3) _ False, of msg] st len
    by (simp add: Let_def LOG_FLUSH_LEVEL_def)
qed

text \<open>
  C18. A fatal log always ends the process, and before it does, with the log level at most FATAL, the line is
  written and flushed and the flight recorder is printed: its last lines, oldest first, with the fatal line
  itself at the end.
\<close>

theorem fatal_log_dumps_and_exits:
  assumes "logger_ok s" "log_env_ok env file line s" "loglevel s \<le> LOG_FATAL" "0 < capacity s"
  shows "\<exists>s' t. FLOG env file line (Some msg) s = Some (Inl (Fatal, s')) \<and>
     t = cstr (log_out env file line LOG_FATAL msg) \<and>
     lg_io s' = lg_io s @ [Line (out_fd s) t, Fflush (out_fd s)] @
       map (Line (out_fd s)) (lastn (capacity s) (recorded s @ [t])) @ [Fflush (out_fd s)] \<and>
     last (lastn (capacity s) (recorded s @ [t])) = t"
proof -
  let ?t = "log_out env file line LOG_FATAL msg"
  let ?s1 = "s\<lparr>logfile := Some (out_fd s)\<rparr>"
  have len: "length ?t \<le> 2047" using length_log_text by (simp add: log_out_def)
  have rec: "recorded (stored ?t ?s1) = lastn (capacity s) (recorded s @ [cstr ?t])"
    using record_line_stored [of ?s1 env ?t] assms(1,2) len by (simp add: log_env_ok_def)
  have "length (lastn (capacity s) (recorded s @ [cstr ?t])) \<noteq> 0" using assms(4) by simp
  then have ne: "lastn (capacity s) (recorded s @ [cstr ?t]) \<noteq> []" by (metis list.size(3))
  have sev: "0 \<le> LOG_FATAL" "LOG_FATAL < LOG_MAX" and flush: "LOG_FLUSH_LEVEL \<le> LOG_FATAL"
    by (simp_all add: log_consts)
  have "flight_recorder s \<noteq> None" using assms(4) by (auto simp: capacity_def split: option.splits)
  then have "FLOG env file line (Some msg) s = Some (Inl (Fatal,
      write_io (map (Line (out_fd s)) (lastn (capacity s) (recorded s @ [cstr ?t])) @ [Fflush (out_fd s)])
        (write_io [Line (out_fd s) (cstr ?t), Fflush (out_fd s)] (stored ?t ?s1))))"
    using log_line_valid [OF assms(1,2) sev, of msg] assms(3) ne
    by (auto simp: FLOG_def Let_def rec flush)
  moreover have "last (lastn (capacity s) (recorded s @ [cstr ?t])) = cstr ?t"
    using assms(4) by (simp add: lastn_def last_drop)
  ultimately show ?thesis by simp
qed

section \<open>Witnesses\<close>

definition example_log_env :: log_env where
  "example_log_env = \<lparr>tv_sec = 7, tv_usec = 42, fdopen_ok = True, entry_alloc = True\<rparr>"

text \<open>A logger on descriptor 2 with a flight recorder of two lines, both in use.\<close>

definition example_logger :: logging where
  "example_logger = \<lparr>logfile = Some 2, loglevel = LOG_ERROR, flight_recorder = Some rb_two, lg_io = [], lg_calls = []\<rparr>"

lemma example_logger_ok:
  "logger_ok example_logger" "log_env_ok example_log_env ''main.c'' 17 example_logger" "capacity example_logger = 2"
  "recorded example_logger = [''a'', ''b'']" "loglevel example_logger = 3" "out_fd example_logger = 2"
  "lg_io example_logger = []"
  using rb_two_inv by (simp_all add: logger_ok_def example_logger_def log_env_ok_def example_log_env_def capacity_def
      recorded_def rb_contents_def rb_two_def cstr_def upt_rec log_consts out_fd_def)

lemma example_text:
  "log_out example_log_env ''main.c'' 17 LOG_INFO ''hello'' = ''[I]        7.000042 main.c:17 hello''"
  "log_out example_log_env ''main.c'' 17 LOG_FATAL ''fail!'' = ''[F]        7.000042 main.c:17 fail!''"
  by code_simp+

theorem log_line_effect_witness:
  "\<exists>s'. log_line example_log_env ''main.c'' 17 LOG_INFO (Some ''hello'') example_logger = Some (Inr s') \<and>
     lg_io s' = [] \<and> recorded s' = [''b'', ''[I]        7.000042 main.c:17 hello'']"
  using log_line_effect [OF example_logger_ok(1,2), of LOG_INFO "''hello''"]
  by (simp add: example_logger_ok example_text lastn_def cstr_def) (auto simp: LOG_INFO_def LOG_FATAL_def)

theorem fatal_log_dumps_and_exits_witness:
  "\<exists>s'. FLOG example_log_env ''main.c'' 17 (Some ''fail!'') example_logger = Some (Inl (Fatal, s')) \<and>
     lg_io s' = [Line 2 ''[F]        7.000042 main.c:17 fail!'', Fflush 2, Line 2 ''b'',
       Line 2 ''[F]        7.000042 main.c:17 fail!'', Fflush 2]"
  using fatal_log_dumps_and_exits [OF example_logger_ok(1,2), of "''fail!''"]
  by (simp add: example_logger_ok example_text lastn_def cstr_def) (simp add: LOG_FATAL_def)

end
