(* ===== verification/Stat.thy ===== *)
theory Stat
  imports World
begin

text \<open>
  The traffic statistics, src/src/stat.c: 64 bit counters that are printed and reset periodically. The
  record mirrors \<open>stat_t\<close>; printed lines are kept in \<open>s_printed\<close> as the values behind the format, in the
  order of the format. The main statement is that printing loses nothing: all the lines together with
  the current counters account for every event.
\<close>

section \<open>State and operations\<close>

record stat =
  s_interval :: int
  requests_size :: u64
  responses_size :: u64
  requests :: u64
  responses :: u64
  query_times_sum :: u64
  connections_opened :: u64
  connections_closed :: u64
  connections_reused :: u64
  tcp_requests_size :: u64
  tcp_responses_size :: u64
  tcp_requests :: u64
  tcp_responses :: u64
  tcp_query_times_sum :: u64
  s_printed :: "u64 list list"
  s_header :: bool
  s_calls :: "call list"

definition reset_counters :: "stat \<Rightarrow> stat" where
  "reset_counters s = s\<lparr>requests_size := 0, responses_size := 0, requests := 0, responses := 0,
     query_times_sum := 0, connections_opened := 0, connections_closed := 0, connections_reused := 0,
     tcp_requests_size := 0, tcp_responses_size := 0, tcp_requests := 0, tcp_responses := 0,
     tcp_query_times_sum := 0\<rparr>"

text \<open>The values in the order in which they are printed.\<close>

definition counters :: "stat \<Rightarrow> u64 list" where
  "counters s = [requests s, responses s, query_times_sum s, requests_size s, responses_size s,
     connections_opened s, connections_closed s, connections_reused s,
     tcp_requests s, tcp_responses s, tcp_query_times_sum s, tcp_requests_size s, tcp_responses_size s]"

definition stat_print :: "stat \<Rightarrow> stat" where
  "stat_print s = reset_counters (s\<lparr>s_printed := s_printed s @ [counters s]\<rparr>)"

definition stat_timer_cb :: "stat \<Rightarrow> stat" where
  "stat_timer_cb s = stat_print s"

text \<open>\<open>old\<close> is the memory of the struct before initialisation.\<close>

definition stat_init :: "int \<Rightarrow> stat \<Rightarrow> stat" where
  "stat_init stats_interval old =
     (let s = reset_counters (old\<lparr>s_interval := stats_interval\<rparr>);
          s1 = s\<lparr>s_calls := s_calls s @ [Ev_set Stats_timer (of_int stats_interval) (of_int stats_interval)]\<rparr>
      in if s_interval s1 > 0
         then s1\<lparr>s_calls := s_calls s1 @ [Ev_start Stats_timer], s_header := True\<rparr>
         else s1)"

definition stat_request_begin :: "u64 \<Rightarrow> bool \<Rightarrow> stat \<Rightarrow> stat" where
  "stat_request_begin req_len is_tcp s =
     (if is_tcp
      then s\<lparr>tcp_requests_size := tcp_requests_size s + req_len, tcp_requests := tcp_requests s + 1\<rparr>
      else s\<lparr>requests_size := requests_size s + req_len, requests := requests s + 1\<rparr>)"

text \<open>
  The conversion of a floating point value to \<open>uint64_t\<close>: towards zero, undefined when the result is
  not representable. Time stamps are rational numbers here: differences and products of them are exact, while
  the code computes in doubles, so a latency can differ by one millisecond (0.29 s gives 289 here, and 290 in
  doubles).
\<close>

definition to_u64 :: "rat \<Rightarrow> u64 res" where
  "to_u64 x = (let i = (if x < 0 then - \<lfloor>- x\<rfloor> else \<lfloor>x\<rfloor>)
               in if 0 \<le> i \<and> i < 2 ^ 64 then Inr (word_of_int i) else Inl Undef)"

definition stat_request_end :: "u64 \<Rightarrow> ev_tstamp \<Rightarrow> bool \<Rightarrow> stat \<Rightarrow> stat res" where
  "stat_request_end resp_len latency is_tcp s =
     (if resp_len \<noteq> 0
      then bind_res (to_u64 (latency * 1000)) (\<lambda>ms.
             if is_tcp
             then Inr (s\<lparr>tcp_responses_size := tcp_responses_size s + resp_len,
                         tcp_responses := tcp_responses s + 1,
                         tcp_query_times_sum := tcp_query_times_sum s + ms\<rparr>)
             else Inr (s\<lparr>responses_size := responses_size s + resp_len,
                         responses := responses s + 1,
                         query_times_sum := query_times_sum s + ms\<rparr>))
      else Inr s)"

definition stat_connection_opened :: "stat \<Rightarrow> stat" where
  "stat_connection_opened s = s\<lparr>connections_opened := connections_opened s + 1\<rparr>"

definition stat_connection_closed :: "stat \<Rightarrow> stat" where
  "stat_connection_closed s = s\<lparr>connections_closed := connections_closed s + 1\<rparr>"

definition stat_connection_reused :: "stat \<Rightarrow> stat" where
  "stat_connection_reused s = s\<lparr>connections_reused := connections_reused s + 1\<rparr>"

definition stat_stop :: "stat \<Rightarrow> stat" where
  "stat_stop s = s\<lparr>s_calls := s_calls s @ [Ev_stop Stats_timer]\<rparr>"

definition stat_cleanup :: "stat \<Rightarrow> stat" where
  "stat_cleanup s = (if s_interval s > 0 then stat_print s else s)"

section \<open>Accounting\<close>

text \<open>What can happen between two printed lines, and the timer that prints.\<close>

datatype stat_event =
    Request u64 bool
  | Response u64 ev_tstamp bool
  | Opened | Closed | Reused
  | Stat_timer

fun stat_run :: "stat_event list \<Rightarrow> stat \<Rightarrow> stat res" where
  "stat_run [] s = Inr s"
| "stat_run (Request n t # es) s = stat_run es (stat_request_begin n t s)"
| "stat_run (Response n l t # es) s = bind_res (stat_request_end n l t s) (stat_run es)"
| "stat_run (Opened # es) s = stat_run es (stat_connection_opened s)"
| "stat_run (Closed # es) s = stat_run es (stat_connection_closed s)"
| "stat_run (Reused # es) s = stat_run es (stat_connection_reused s)"
| "stat_run (Stat_timer # es) s = stat_run es (stat_timer_cb s)"

text \<open>
  The share of one event in the thirteen printed columns: a request counts once with its size, a
  non-empty response once with its size and its latency in whole milliseconds, on its transport.
\<close>

definition millis :: "ev_tstamp \<Rightarrow> u64" where
  "millis l = word_of_int \<lfloor>l * 1000\<rfloor>"

fun share :: "stat_event \<Rightarrow> u64 list" where
  "share (Request n t) = (if t then [0, 0, 0, 0, 0, 0, 0, 0, 1, 0, 0, n, 0] else [1, 0, 0, n, 0, 0, 0, 0, 0, 0, 0, 0, 0])"
| "share (Response n l t) =
     (if n = 0 then replicate 13 0
      else if t then [0, 0, 0, 0, 0, 0, 0, 0, 0, 1, millis l, 0, n] else [0, 1, millis l, 0, n, 0, 0, 0, 0, 0, 0, 0, 0])"
| "share Opened = [0, 0, 0, 0, 0, 1, 0, 0, 0, 0, 0, 0, 0]"
| "share Closed = [0, 0, 0, 0, 0, 0, 1, 0, 0, 0, 0, 0, 0]"
| "share Reused = [0, 0, 0, 0, 0, 0, 0, 1, 0, 0, 0, 0, 0]"
| "share Stat_timer = replicate 13 0"

fun sensible :: "stat_event \<Rightarrow> bool" where
  "sensible (Response n l t) \<longleftrightarrow> 0 \<le> l \<and> l * 1000 < 2 ^ 64"
| "sensible _ \<longleftrightarrow> True"

text \<open>Column \<open>k\<close> over all printed lines and the current counters.\<close>

definition column :: "nat \<Rightarrow> stat \<Rightarrow> u64" where
  "column k s = sum_list (map (\<lambda>line. line ! k) (s_printed s)) + counters s ! k"

lemma to_u64_millis: "0 \<le> l \<Longrightarrow> l * 1000 < 2 ^ 64 \<Longrightarrow> to_u64 (l * 1000) = Inr (millis l)"
  by (auto simp: to_u64_def millis_def Let_def floor_less_iff)

lemma below_13: "k < 13 \<Longrightarrow> k \<in> {0, 1, 2, 3, 4, 5, 6, 7, 8, 9, 10, 11, 12 :: nat}"
  by (simp add: numeral_eq_Suc less_Suc_eq)

lemma column_print: "k < 13 \<Longrightarrow> column k (stat_print s) = column k s"
  by (drule below_13) (auto simp: column_def stat_print_def reset_counters_def counters_def)

lemma column_request: "k < 13 \<Longrightarrow> column k (stat_request_begin n t s) = column k s + share (Request n t) ! k"
  by (drule below_13) (auto simp: column_def stat_request_begin_def counters_def)

lemma column_response:
  "k < 13 \<Longrightarrow> sensible (Response n l t) \<Longrightarrow>
   \<exists>s'. stat_request_end n l t s = Inr s' \<and> column k s' = column k s + share (Response n l t) ! k"
  by (drule below_13) (auto simp: column_def stat_request_end_def counters_def to_u64_millis)

lemma column_connection:
  "k < 13 \<Longrightarrow> column k (stat_connection_opened s) = column k s + share Opened ! k"
  "k < 13 \<Longrightarrow> column k (stat_connection_closed s) = column k s + share Closed ! k"
  "k < 13 \<Longrightarrow> column k (stat_connection_reused s) = column k s + share Reused ! k"
  by (drule below_13, auto simp: column_def counters_def stat_connection_opened_def
      stat_connection_closed_def stat_connection_reused_def)+

lemma stat_run_column:
  assumes "\<forall>e \<in> set es. sensible e" "k < 13"
  shows "\<exists>s'. stat_run es s = Inr s' \<and> column k s' = column k s + sum_list (map (\<lambda>e. share e ! k) es)"
  using assms(1)
proof (induction es s rule: stat_run.induct)
  case (3 n l t es s)
  from 3(2) obtain s1 where s1: "stat_request_end n l t s = Inr s1"
      "column k s1 = column k s + share (Response n l t) ! k"
    using column_response [OF assms(2), of n l t s] by auto
  from 3(1) [of s1] 3(2) obtain s' where "stat_run es s1 = Inr s'"
      "column k s' = column k s1 + sum_list (map (\<lambda>e. share e ! k) es)"
    by auto
  with s1 show ?case by (simp add: add.assoc)
qed (use assms(2) in \<open>auto simp: column_request column_connection column_print stat_timer_cb_def add.assoc\<close>)

lemma stat_run_interval: "stat_run es s = Inr s' \<Longrightarrow> s_interval s' = s_interval s"
proof (induction es s arbitrary: s' rule: stat_run.induct)
  case (3 n l t es s)
  then show ?case by (force simp: stat_request_end_def split: if_splits)
qed (auto simp: stat_request_begin_def stat_connection_opened_def stat_connection_closed_def
    stat_connection_reused_def stat_timer_cb_def stat_print_def reset_counters_def split: if_splits)

lemma stat_init_column: "s_printed old = [] \<Longrightarrow> k < 13 \<Longrightarrow> column k (stat_init i old) = 0"
  by (drule below_13) (auto simp: column_def stat_init_def reset_counters_def counters_def Let_def)

text \<open>
  C20. Statistics lose nothing. Whatever requests, responses and connection events happen and however often
  the timer prints in between, the printed lines together with the current counters add up, column by
  column (modulo 2 to the 64), to exactly one contribution per event, and the final \<open>stat_cleanup\<close> with
  statistics on leaves the whole sum in the printed lines.
\<close>

theorem stat_accounts_for_every_event:
  assumes "\<forall>e \<in> set es. sensible e" "s_printed old = []" "k < 13" "0 < interval"
  shows "\<exists>s. stat_run es (stat_init interval old) = Inr s \<and>
     column k s = sum_list (map (\<lambda>e. share e ! k) es) \<and>
     column k (stat_cleanup s) = column k s \<and> counters (stat_cleanup s) ! k = 0"
proof -
  obtain s where "stat_run es (stat_init interval old) = Inr s" "column k s = sum_list (map (\<lambda>e. share e ! k) es)"
    using stat_run_column [OF assms(1,3), of "stat_init interval old"] stat_init_column [OF assms(2,3)] by auto
  moreover have "s_interval s = interval"
    using stat_run_interval [OF calculation(1)] by (simp add: stat_init_def reset_counters_def Let_def)
  moreover have "counters (stat_print s) ! k = 0"
    using below_13 [OF assms(3)] by (auto simp: stat_print_def reset_counters_def counters_def)
  ultimately show ?thesis using column_print [OF assms(3)] assms(4) by (simp add: stat_cleanup_def)
qed

definition example_stat :: stat where
  "example_stat = \<lparr>s_interval = 0, requests_size = 5, responses_size = 5, requests = 5, responses = 5,
     query_times_sum = 5, connections_opened = 5, connections_closed = 5, connections_reused = 5,
     tcp_requests_size = 5, tcp_responses_size = 5, tcp_requests = 5, tcp_responses = 5,
     tcp_query_times_sum = 5, s_printed = [], s_header = False, s_calls = []\<rparr>"

theorem stat_accounts_for_every_event_witness:
  "\<exists>s. stat_run [Request 40 False, Opened, Stat_timer, Response 90 (3 / 2) False] (stat_init 10 example_stat) = Inr s \<and>
     column 2 s = 1500 \<and> column 2 (stat_cleanup s) = column 2 s"
  using stat_accounts_for_every_event [of "[Request 40 False, Opened, Stat_timer, Response 90 (3 / 2) False]"
      example_stat 2 10]
  by (auto simp: example_stat_def millis_def)

end
