(* ===== verification/Options.thy ===== *)
theory Options
  imports Logging
begin

text \<open>
  Command line options, src/src/options.c: defaults, number parsing, the loop over the options and the
  checks after it. The sequence of results of \<open>getopt\<close> (option letter and argument) is the input; what
  the user database, \<open>getuid\<close> and \<open>open\<close> answer is an environment. \<open>int\<close> fields are integers whose
  range the checks bound; \<open>strtoul\<close> is modelled as the C library defines it for base 10 and a 64 bit
  \<open>unsigned long\<close>.
\<close>

section \<open>Data\<close>

definition DEFAULT_HTTP_VERSION :: int where "DEFAULT_HTTP_VERSION = 2"
definition MAX_TCP_CLIENTS :: int where "MAX_TCP_CLIENTS = 200"
definition INT32_MAX :: nat where "INT32_MAX = 2147483647"

record options =
  listen_addr :: string
  listen_port :: int
  tcp_client_limit :: int
  opt_logfile :: string
  logfd :: int
  opt_loglevel :: int
  daemonize :: bool
  user :: "string option"
  group :: "string option"
  opt_uid :: u32
  opt_gid :: u32
  bootstrap_dns :: string
  bootstrap_dns_polling_interval :: int
  ipv4 :: bool
  dscp :: int
  resolver_url :: string
  curl_proxy :: "string option"
  source_addr :: "string option"
  use_http_version :: int
  max_idle_time :: int
  conn_loss_time :: int
  opt_stats_interval :: int
  ca_info :: "string option"
  flight_recorder_size :: int

datatype OptionsParseResult = OPR_SUCCESS | OPR_HELP | OPR_VERSION | OPR_OPTION_ERROR | OPR_PARSING_ERROR

definition options_init :: options where
  "options_init = \<lparr>listen_addr = ''127.0.0.1'', listen_port = 5053, tcp_client_limit = 20,
     opt_logfile = ''-'', logfd = 1, opt_loglevel = LOG_ERROR, daemonize = False,
     user = None, group = None, opt_uid = -1, opt_gid = -1,
     bootstrap_dns = ''8.8.8.8,1.1.1.1,8.8.4.4,1.0.0.1,145.100.185.15,145.100.185.16,185.49.141.37'',
     bootstrap_dns_polling_interval = 120, ipv4 = False, dscp = 0,
     resolver_url = ''https://dns.google/dns-query'', curl_proxy = None, source_addr = None,
     use_http_version = DEFAULT_HTTP_VERSION, max_idle_time = 118, conn_loss_time = 15,
     opt_stats_interval = 0, ca_info = None, flight_recorder_size = 0\<rparr>"

section \<open>Numbers\<close>

definition is_space :: "char \<Rightarrow> bool" where
  "is_space c \<longleftrightarrow> c = CHR '' '' \<or> (9 \<le> (of_char c :: nat) \<and> (of_char c :: nat) \<le> 13)"

definition is_digit :: "char \<Rightarrow> bool" where
  "is_digit c \<longleftrightarrow> 48 \<le> (of_char c :: nat) \<and> (of_char c :: nat) \<le> 57"

definition dec_value :: "string \<Rightarrow> nat" where
  "dec_value ds = foldl (\<lambda>v c. 10 * v + (of_char c - 48)) 0 ds"

text \<open>\<open>strtoul(s, \&endptr, 10)\<close>: the value and the text at \<open>endptr\<close>.\<close>

definition strtoul :: "string \<Rightarrow> nat \<times> string" where
  "strtoul s =
     (let s1 = dropWhile is_space s;
          neg = (s1 \<noteq> [] \<and> hd s1 = CHR ''-'');
          s2 = (if s1 \<noteq> [] \<and> (hd s1 = CHR ''-'' \<or> hd s1 = CHR ''+'') then tl s1 else s1);
          ds = takeWhile is_digit s2
      in if ds = [] then (0, s)
         else (let v = dec_value ds
               in (if v \<ge> 2 ^ 64 then 2 ^ 64 - 1 else if neg then (2 ^ 64 - v) mod 2 ^ 64 else v,
                   dropWhile is_digit s2)))"

definition parse_int :: "string \<Rightarrow> int" where
  "parse_int str =
     (let (value, endptr) = strtoul str
      in if endptr \<noteq> [] \<or> value > INT32_MAX then -1 else int value)"

section \<open>Parsing the command line\<close>

text \<open>One result of \<open>getopt\<close>. For letters without argument the string is not used.\<close>

definition apply_option :: "char \<Rightarrow> string \<Rightarrow> options \<Rightarrow> OptionsParseResult + options" where
  "apply_option c optarg opt =
     (if c = CHR ''a'' then Inr (opt\<lparr>listen_addr := optarg\<rparr>)
      else if c = CHR ''c'' then Inr (opt\<lparr>dscp := parse_int optarg\<rparr>)
      else if c = CHR ''p'' then Inr (opt\<lparr>listen_port := parse_int optarg\<rparr>)
      else if c = CHR ''T'' then Inr (opt\<lparr>tcp_client_limit := parse_int optarg\<rparr>)
      else if c = CHR ''d'' then Inr (opt\<lparr>daemonize := True\<rparr>)
      else if c = CHR ''u'' then Inr (opt\<lparr>user := Some optarg\<rparr>)
      else if c = CHR ''g'' then Inr (opt\<lparr>group := Some optarg\<rparr>)
      else if c = CHR ''b'' then Inr (opt\<lparr>bootstrap_dns := optarg\<rparr>)
      else if c = CHR ''i'' then Inr (opt\<lparr>bootstrap_dns_polling_interval := parse_int optarg\<rparr>)
      else if c = CHR ''4'' then Inr (opt\<lparr>ipv4 := True\<rparr>)
      else if c = CHR ''r'' then Inr (opt\<lparr>resolver_url := optarg\<rparr>)
      else if c = CHR ''t'' then Inr (opt\<lparr>curl_proxy := Some optarg\<rparr>)
      else if c = CHR ''l'' then Inr (opt\<lparr>opt_logfile := optarg\<rparr>)
      else if c = CHR ''v'' then
        Inr (if opt_loglevel opt \<noteq> 0 then opt\<lparr>opt_loglevel := opt_loglevel opt - 1\<rparr> else opt)
      else if c = CHR ''x'' \<or> c = CHR ''q'' then
        (if use_http_version opt = DEFAULT_HTTP_VERSION
         then Inr (opt\<lparr>use_http_version := (if c = CHR ''x'' then 1 else 3)\<rparr>)
         else Inl OPR_OPTION_ERROR)
      else if c = CHR ''m'' then Inr (opt\<lparr>max_idle_time := parse_int optarg\<rparr>)
      else if c = CHR ''L'' then Inr (opt\<lparr>conn_loss_time := parse_int optarg\<rparr>)
      else if c = CHR ''s'' then Inr (opt\<lparr>opt_stats_interval := parse_int optarg\<rparr>)
      else if c = CHR ''S'' then Inr (opt\<lparr>source_addr := Some optarg\<rparr>)
      else if c = CHR ''C'' then Inr (opt\<lparr>ca_info := Some optarg\<rparr>)
      else if c = CHR ''F'' then Inr (opt\<lparr>flight_recorder_size := parse_int optarg\<rparr>)
      else if c = CHR ''h'' then Inl OPR_HELP
      else if c = CHR ''V'' then Inl OPR_VERSION
      else Inl OPR_PARSING_ERROR)"

fun option_loop :: "(char \<times> string) list \<Rightarrow> options \<Rightarrow> OptionsParseResult + options" where
  "option_loop [] opt = Inr opt"
| "option_loop ((c, optarg) # rest) opt =
     (case apply_option c optarg opt of Inl r \<Rightarrow> Inl r | Inr opt' \<Rightarrow> option_loop rest opt')"

text \<open>The user and group databases (id of a name), and the result of opening the log file.\<close>

record opt_env =
  getpwnam :: "string \<Rightarrow> u32 option"
  getgrnam :: "string \<Rightarrow> u32 option"
  open_log :: "string \<Rightarrow> int"

text \<open>The lookups of user and group: an unknown name and id 0 are errors.\<close>

definition resolve_user :: "opt_env \<Rightarrow> options \<Rightarrow> OptionsParseResult + options" where
  "resolve_user env opt =
     (case user opt of
        None \<Rightarrow> Inr opt
      | Some name \<Rightarrow>
          (case getpwnam env name of
             None \<Rightarrow> Inl OPR_OPTION_ERROR
           | Some uid \<Rightarrow> if uid = 0 then Inl OPR_OPTION_ERROR else Inr (opt\<lparr>opt_uid := uid\<rparr>)))"

definition resolve_group :: "opt_env \<Rightarrow> options \<Rightarrow> OptionsParseResult + options" where
  "resolve_group env opt =
     (case group opt of
        None \<Rightarrow> Inr opt
      | Some name \<Rightarrow>
          (case getgrnam env name of
             None \<Rightarrow> Inl OPR_OPTION_ERROR
           | Some gid \<Rightarrow> if gid = 0 then Inl OPR_OPTION_ERROR else Inr (opt\<lparr>opt_gid := gid\<rparr>)))"

text \<open>The checks that follow the option loop, and the result with the options as the caller sees them.\<close>

definition check_options :: "opt_env \<Rightarrow> options \<Rightarrow> OptionsParseResult \<times> options" where
  "check_options env opt =
     (if dscp opt < 0 \<or> dscp opt > 63 then (OPR_OPTION_ERROR, opt)
      else
        (let opt1 = opt\<lparr>dscp := dscp opt * 4\<rparr>;
             opt2 = (if opt_logfile opt1 \<noteq> ''-'' then opt1\<lparr>logfd := open_log env (opt_logfile opt1)\<rparr> else opt1)
         in if take 8 (resolver_url opt2) \<noteq> ''https://'' then (OPR_OPTION_ERROR, opt2)
            else if bootstrap_dns_polling_interval opt2 < 5 \<or> bootstrap_dns_polling_interval opt2 > 3600
            then (OPR_OPTION_ERROR, opt2)
            else if max_idle_time opt2 < 0 \<or> max_idle_time opt2 > 3600 then (OPR_OPTION_ERROR, opt2)
            else if conn_loss_time opt2 < 5 \<or> conn_loss_time opt2 > 60 then (OPR_OPTION_ERROR, opt2)
            else if opt_stats_interval opt2 < 0 \<or> opt_stats_interval opt2 > 3600 then (OPR_OPTION_ERROR, opt2)
            else if flight_recorder_size opt2 \<noteq> 0 \<and>
                    (flight_recorder_size opt2 < 100 \<or> flight_recorder_size opt2 > 100000)
            then (OPR_OPTION_ERROR, opt2)
            else if listen_port opt2 < 0 \<or> listen_port opt2 > 65535 then (OPR_OPTION_ERROR, opt2)
            else if tcp_client_limit opt2 < 0 \<or> tcp_client_limit opt2 > MAX_TCP_CLIENTS
            then (OPR_OPTION_ERROR, opt2)
            else (OPR_SUCCESS, opt2)))"

text \<open>
  On an early error the caller only prints and exits; the options then are not modelled beyond the
  point of the error.
\<close>

definition options_parse_args ::
  "opt_env \<Rightarrow> (char \<times> string) list \<Rightarrow> options \<Rightarrow> OptionsParseResult \<times> options" where
  "options_parse_args env args opt =
     (case option_loop args opt of
        Inl r \<Rightarrow> (r, opt)
      | Inr opt1 \<Rightarrow>
          (case resolve_user env opt1 of
             Inl r \<Rightarrow> (r, opt1)
           | Inr opt2 \<Rightarrow>
               (case resolve_group env opt2 of
                  Inl r \<Rightarrow> (r, opt2)
                | Inr opt3 \<Rightarrow> check_options env opt3)))"

text \<open>The descriptor that is closed, if any.\<close>

definition options_cleanup :: "options \<Rightarrow> call list" where
  "options_cleanup opt = (if logfd opt \<noteq> 1 \<and> logfd opt > 0 then [Close (logfd opt)] else [])"

section \<open>Lemmas\<close>

lemma digit_char_is_digit: "d < 10 \<Longrightarrow> is_digit (digit_char d)"
  by (simp add: is_digit_def of_digit_char)

lemma show_nat_digits: "\<forall>c \<in> set (show_nat n). is_digit c"
  by (induction n rule: show_nat.induct) (subst show_nat.simps, auto simp: digit_char_is_digit)

lemma show_nat_nonempty: "show_nat n \<noteq> []"
  by (subst show_nat.simps) simp

lemma dec_value_snoc: "dec_value (ds @ [c]) = 10 * dec_value ds + (of_char c - 48)"
  by (simp add: dec_value_def)

lemma dec_value_show_nat: "dec_value (show_nat n) = n"
proof (induction n rule: show_nat.induct)
  case (1 n)
  show ?case
  proof (cases "n < 10")
    case True
    then show ?thesis by (subst show_nat.simps) (simp add: dec_value_def of_digit_char)
  next
    case False
    with 1 show ?thesis by (subst show_nat.simps) (simp add: dec_value_snoc of_digit_char)
  qed
qed

lemma digit_not_special: "is_digit c \<Longrightarrow> \<not> is_space c \<and> c \<noteq> CHR ''-'' \<and> c \<noteq> CHR ''+''"
  by (auto simp: is_digit_def is_space_def)

lemma strtoul_digits:
  assumes "\<forall>c \<in> set ds. is_digit c" "ds \<noteq> []"
  shows "strtoul ds = (if dec_value ds \<ge> 2 ^ 64 then 2 ^ 64 - 1 else dec_value ds, [])"
    and "strtoul (CHR ''-'' # ds) =
           (if dec_value ds \<ge> 2 ^ 64 then 2 ^ 64 - 1 else (2 ^ 64 - dec_value ds) mod 2 ^ 64, [])"
proof -
  have "is_digit (hd ds)" using assms by simp
  then have hd: "\<not> is_space (hd ds)" "hd ds \<noteq> CHR ''-''" "hd ds \<noteq> CHR ''+''" using digit_not_special by blast+
  have "dropWhile is_space ds = ds" using hd(1) assms(2) by (cases ds) auto
  moreover have "\<not> is_space CHR ''-''" by (simp add: is_space_def)
  ultimately show "strtoul ds = (if dec_value ds \<ge> 2 ^ 64 then 2 ^ 64 - 1 else dec_value ds, [])"
    and "strtoul (CHR ''-'' # ds) =
           (if dec_value ds \<ge> 2 ^ 64 then 2 ^ 64 - 1 else (2 ^ 64 - dec_value ds) mod 2 ^ 64, [])"
    using hd assms by (simp_all add: strtoul_def Let_def takeWhile_eq_all_conv [THEN iffD2])
qed

lemma parse_int_range: "-1 \<le> parse_int s \<and> parse_int s \<le> 2147483647"
  by (auto simp: parse_int_def INT32_MAX_def split: prod.splits)

text \<open>How one option changes the log level and the HTTP version.\<close>

lemma apply_option_effect:
  assumes "apply_option c optarg opt = Inr opt'"
  shows "opt_loglevel opt' = opt_loglevel opt \<or> opt_loglevel opt \<noteq> 0 \<and> opt_loglevel opt' = opt_loglevel opt - 1"
    and "if c = CHR ''x'' \<or> c = CHR ''q''
         then use_http_version opt = 2 \<and> use_http_version opt' = (if c = CHR ''x'' then 1 else 3)
         else use_http_version opt' = use_http_version opt"
  using assms unfolding apply_option_def by (auto simp: DEFAULT_HTTP_VERSION_def split: if_split_asm)

lemma apply_option_loop:
  assumes "option_loop args opt = Inr opt'"
    and "0 \<le> opt_loglevel opt" "opt_loglevel opt \<le> 3" "use_http_version opt \<in> {1, 2, 3}"
  shows "0 \<le> opt_loglevel opt' \<and> opt_loglevel opt' \<le> 3 \<and> use_http_version opt' \<in> {1, 2, 3}"
  using assms
proof (induction args opt rule: option_loop.induct)
  case (2 c optarg rest opt)
  then obtain opt1 where opt1: "apply_option c optarg opt = Inr opt1" "option_loop rest opt1 = Inr opt'"
    by (auto split: sum.splits)
  then have "0 \<le> opt_loglevel opt1 \<and> opt_loglevel opt1 \<le> 3 \<and> use_http_version opt1 \<in> {1, 2, 3}"
    using apply_option_effect [OF opt1(1)] 2(3-5) by (auto split: if_splits)
  with 2(1) [OF opt1] show ?case by blast
qed simp

lemma apply_option_no_success: "apply_option c optarg opt = Inl r \<Longrightarrow> r \<noteq> OPR_SUCCESS"
  unfolding apply_option_def by (auto split: if_split_asm)

lemma option_loop_no_success: "option_loop args opt = Inl r \<Longrightarrow> r \<noteq> OPR_SUCCESS"
  by (induction args opt rule: option_loop.induct) (auto dest: apply_option_no_success split: sum.splits)

lemma resolve_no_success:
  "resolve_user env opt = Inl r \<Longrightarrow> r \<noteq> OPR_SUCCESS" "resolve_group env opt = Inl r \<Longrightarrow> r \<noteq> OPR_SUCCESS"
  by (auto simp: resolve_user_def resolve_group_def split: option.splits if_splits)

lemma check_options_success:
  assumes "check_options env o3 = (OPR_SUCCESS, opt)"
  shows "0 \<le> dscp o3" "dscp o3 \<le> 63" "dscp opt = 4 * dscp o3"
    and "opt_loglevel opt = opt_loglevel o3" "use_http_version opt = use_http_version o3"
    and "user opt = user o3" "opt_uid opt = opt_uid o3" "group opt = group o3" "opt_gid opt = opt_gid o3"
    and "0 \<le> listen_port opt" "listen_port opt \<le> 65535"
    and "0 \<le> tcp_client_limit opt" "tcp_client_limit opt \<le> 200"
    and "5 \<le> bootstrap_dns_polling_interval opt" "bootstrap_dns_polling_interval opt \<le> 3600"
    and "0 \<le> max_idle_time opt" "max_idle_time opt \<le> 3600"
    and "5 \<le> conn_loss_time opt" "conn_loss_time opt \<le> 60"
    and "0 \<le> opt_stats_interval opt" "opt_stats_interval opt \<le> 3600"
    and "flight_recorder_size opt = 0 \<or> 100 \<le> flight_recorder_size opt \<and> flight_recorder_size opt \<le> 100000"
    and "take 8 (resolver_url opt) = ''https://''"
  using assms unfolding check_options_def Let_def
  by (auto simp: MAX_TCP_CLIENTS_def split: if_split_asm)

text \<open>Once the version is not the default, no further choice is accepted.\<close>

lemma http_version_fixed:
  "option_loop args opt = Inr opt' \<Longrightarrow> use_http_version opt \<noteq> 2 \<Longrightarrow>
   \<forall>(c, _) \<in> set args. c \<noteq> CHR ''x'' \<and> c \<noteq> CHR ''q''"
proof (induction args opt rule: option_loop.induct)
  case (2 c optarg rest opt)
  then obtain opt1 where opt1: "apply_option c optarg opt = Inr opt1" "option_loop rest opt1 = Inr opt'"
    by (auto split: sum.splits)
  from apply_option_effect(2) [OF opt1(1)] 2(3) have "c \<noteq> CHR ''x'' \<and> c \<noteq> CHR ''q''" "use_http_version opt1 \<noteq> 2"
    by (auto split: if_splits)
  with 2(1) [OF opt1] show ?case by auto
qed simp

lemma http_version_once:
  "option_loop args opt = Inr opt' \<Longrightarrow>
   length (filter (\<lambda>(c, _). c = CHR ''x'' \<or> c = CHR ''q'') args) \<le> 1"
proof (induction args opt rule: option_loop.induct)
  case (2 c optarg rest opt)
  then obtain opt1 where opt1: "apply_option c optarg opt = Inr opt1" "option_loop rest opt1 = Inr opt'"
    by (auto split: sum.splits)
  show ?case
  proof (cases "c = CHR ''x'' \<or> c = CHR ''q''")
    case True
    then have "use_http_version opt1 \<noteq> 2" using apply_option_effect(2) [OF opt1(1)] by (auto split: if_splits)
    from http_version_fixed [OF opt1(2) this]
    have "filter (\<lambda>(c, _). c = CHR ''x'' \<or> c = CHR ''q'') rest = []" by (auto simp: filter_empty_conv)
    then show ?thesis by simp
  next
    case False
    with 2(1) [OF opt1] show ?thesis by simp
  qed
qed simp

section \<open>Properties\<close>

lemma accepted_options:
  assumes "options_parse_args env args options_init = (OPR_SUCCESS, opt)"
  shows "(0 \<le> listen_port opt \<and> listen_port opt \<le> 65535) \<and>
     (0 \<le> tcp_client_limit opt \<and> tcp_client_limit opt \<le> 200) \<and>
     (5 \<le> bootstrap_dns_polling_interval opt \<and> bootstrap_dns_polling_interval opt \<le> 3600) \<and>
     (0 \<le> max_idle_time opt \<and> max_idle_time opt \<le> 3600) \<and>
     (5 \<le> conn_loss_time opt \<and> conn_loss_time opt \<le> 60) \<and>
     (0 \<le> opt_stats_interval opt \<and> opt_stats_interval opt \<le> 3600) \<and>
     (flight_recorder_size opt = 0 \<or> 100 \<le> flight_recorder_size opt \<and> flight_recorder_size opt \<le> 100000) \<and>
     take 8 (resolver_url opt) = ''https://'' \<and>
     (\<exists>code. dscp opt = 4 * code \<and> 0 \<le> code \<and> code \<le> 63) \<and>
     (0 \<le> opt_loglevel opt \<and> opt_loglevel opt \<le> LOG_ERROR) \<and>
     use_http_version opt \<in> {1, 2, 3} \<and>
     (\<forall>name. user opt = Some name \<longrightarrow> opt_uid opt \<noteq> 0 \<and> getpwnam env name = Some (opt_uid opt)) \<and>
     (\<forall>name. group opt = Some name \<longrightarrow> opt_gid opt \<noteq> 0 \<and> getgrnam env name = Some (opt_gid opt))"
proof -
  obtain o1 o2 o3 where o: "option_loop args options_init = Inr o1" "resolve_user env o1 = Inr o2"
      "resolve_group env o2 = Inr o3" "check_options env o3 = (OPR_SUCCESS, opt)"
    using assms option_loop_no_success resolve_no_success
    by (fastforce simp: options_parse_args_def split: sum.splits)
  have o1: "0 \<le> opt_loglevel o1 \<and> opt_loglevel o1 \<le> 3 \<and> use_http_version o1 \<in> {1, 2, 3}"
    by (rule apply_option_loop [OF o(1)]) (simp_all add: options_init_def log_consts DEFAULT_HTTP_VERSION_def)
  have o2: "opt_loglevel o2 = opt_loglevel o1" "use_http_version o2 = use_http_version o1"
      "\<forall>name. user o2 = Some name \<longrightarrow> opt_uid o2 \<noteq> 0 \<and> getpwnam env name = Some (opt_uid o2)"
    using o(2) by (auto simp: resolve_user_def split: option.splits if_splits)
  have o3: "opt_loglevel o3 = opt_loglevel o2" "use_http_version o3 = use_http_version o2"
      "user o3 = user o2" "opt_uid o3 = opt_uid o2"
      "\<forall>name. group o3 = Some name \<longrightarrow> opt_gid o3 \<noteq> 0 \<and> getgrnam env name = Some (opt_gid o3)"
    using o(3) by (auto simp: resolve_group_def split: option.splits if_splits)
  note checked = check_options_success [OF o(4)]
  show ?thesis
    using o1 o2 o3 checked by (auto simp: LOG_ERROR_def)
qed

text \<open>
  C19. Options that the program accepts are within the documented limits: whatever the command line, when
  parsing it from the defaults succeeds, every number is in its range, the DSCP value is a code point
  shifted to the upper six bits of the traffic class byte, the resolver is an https URL, the log level is
  at most ERROR, the HTTP version is 1, 2 or 3, and a user or group to drop to exists and is not root.
\<close>

theorem accepted_options_in_range:
  assumes "options_parse_args env args options_init = (OPR_SUCCESS, opt)"
  shows "(0 \<le> listen_port opt \<and> listen_port opt \<le> 65535) \<and>
     (0 \<le> tcp_client_limit opt \<and> tcp_client_limit opt \<le> 200) \<and>
     (5 \<le> bootstrap_dns_polling_interval opt \<and> bootstrap_dns_polling_interval opt \<le> 3600) \<and>
     (0 \<le> max_idle_time opt \<and> max_idle_time opt \<le> 3600) \<and>
     (5 \<le> conn_loss_time opt \<and> conn_loss_time opt \<le> 60) \<and>
     (0 \<le> opt_stats_interval opt \<and> opt_stats_interval opt \<le> 3600) \<and>
     (flight_recorder_size opt = 0 \<or> 100 \<le> flight_recorder_size opt \<and> flight_recorder_size opt \<le> 100000) \<and>
     take 8 (resolver_url opt) = ''https://'' \<and>
     (\<exists>code. dscp opt = 4 * code \<and> 0 \<le> code \<and> code \<le> 63) \<and>
     (0 \<le> opt_loglevel opt \<and> opt_loglevel opt \<le> LOG_ERROR) \<and>
     use_http_version opt \<in> {1, 2, 3} \<and>
     (\<forall>name. user opt = Some name \<longrightarrow> opt_uid opt \<noteq> 0 \<and> getpwnam env name = Some (opt_uid opt)) \<and>
     (\<forall>name. group opt = Some name \<longrightarrow> opt_gid opt \<noteq> 0 \<and> getgrnam env name = Some (opt_gid opt))"
  using accepted_options [OF assms] .

text \<open>
  C29. Numbers round trip: the decimal text of every number up to 2147483647 parses back to that number, and
  of every larger number is rejected.
\<close>

theorem parse_int_roundtrip:
  "parse_int (show_nat n) = (if n \<le> 2147483647 then int n else -1)"
  using strtoul_digits(1) [OF show_nat_digits show_nat_nonempty, of n]
  by (auto simp: parse_int_def INT32_MAX_def dec_value_show_nat split: if_splits)

text \<open>
  C39. What a minus sign does: \<open>strtoul\<close> negates in 64 bits, so the text of \<open>-n\<close> parses to \<open>2^64 - n\<close> if that is at
  most 2147483647 and is rejected otherwise; the negative numbers from \<open>1 - 2^64\<close> to \<open>2147483647 - 2^64\<close> pass as
  the positive ones 1 to 2147483647. An empty argument parses to 0.
\<close>

theorem parse_int_negative_wraps:
  "parse_int '''' = 0 \<and>
   parse_int (CHR ''-'' # show_nat n) =
     (if n = 0 then 0 else if n < 2 ^ 64 \<and> 2 ^ 64 - n \<le> 2147483647 then int (2 ^ 64 - n) else -1)"
proof -
  have "parse_int '''' = 0" by (simp add: parse_int_def strtoul_def Let_def INT32_MAX_def)
  moreover have "(2 ^ 64 - n) mod 2 ^ 64 = (if n = 0 then 0 else 2 ^ 64 - n)" by simp
  ultimately show ?thesis
    using strtoul_digits(2) [OF show_nat_digits show_nat_nonempty, of n]
    by (auto simp: parse_int_def INT32_MAX_def dec_value_show_nat split: if_splits)
qed

text \<open>
  C28. The HTTP version can be chosen only once: a command line on which x and q occur together, or one of
  them twice, is never accepted.
\<close>

theorem http_version_chosen_once:
  assumes "1 < length (filter (\<lambda>(c, _). c = CHR ''x'' \<or> c = CHR ''q'') args)"
  shows "fst (options_parse_args env args opt) \<noteq> OPR_SUCCESS"
proof (cases "option_loop args opt")
  case (Inl r)
  with option_loop_no_success show ?thesis by (simp add: options_parse_args_def)
next
  case (Inr o1)
  from http_version_once [OF this] assms show ?thesis by simp
qed

section \<open>Witnesses\<close>

definition example_opt_env :: opt_env where
  "example_opt_env = \<lparr>getpwnam = \<lambda>n. Some 65534, getgrnam = \<lambda>n. Some 65534, open_log = \<lambda>n. 3\<rparr>"

theorem accepted_options_in_range_witness:
  "\<exists>opt. options_parse_args example_opt_env [(CHR ''p'', ''53''), (CHR ''v'', ''''), (CHR ''c'', ''63'')] options_init =
     (OPR_SUCCESS, opt) \<and> dscp opt = 252 \<and> 0 \<le> listen_port opt \<and> listen_port opt \<le> 65535"
proof -
  have p: "parse_int ''53'' = 53" "parse_int ''63'' = 63"
    by (simp_all add: parse_int_def strtoul_def is_space_def is_digit_def dec_value_def INT32_MAX_def)
  obtain opt where opt: "options_parse_args example_opt_env [(CHR ''p'', ''53''), (CHR ''v'', ''''), (CHR ''c'', ''63'')]
      options_init = (OPR_SUCCESS, opt)" "dscp opt = 252"
    by (simp add: options_parse_args_def apply_option_def p options_init_def resolve_user_def resolve_group_def
        check_options_def MAX_TCP_CLIENTS_def log_consts Let_def)
  with accepted_options_in_range [OF opt(1)] show ?thesis by blast
qed

theorem http_version_chosen_once_witness:
  "fst (options_parse_args example_opt_env [(CHR ''x'', ''''), (CHR ''q'', '''')] options_init) \<noteq> OPR_SUCCESS"
  by (rule http_version_chosen_once) simp

end
