(* ===== verification/Io_Slots.thy ===== *)
theory Io_Slots
  imports World
begin

text \<open>
  The fixed table of libev I/O watchers with which both the DNS poller (for c-ares) and the HTTPS client
  (for curl) follow the sockets of a library: \<open>get_io_event\<close> of src/src/dns_poller.c and
  src/src/https_client.c, and the two halves of their socket callbacks. A slot whose \<open>fd\<close> is 0 is free.
  The interface locale \<open>socket_watcher\<close> states what the callbacks promise to the libraries; both
  components interpret it.
\<close>

record io_slot =
  io_fd :: int
  io_read :: bool
  io_write :: bool

text \<open>The linear search: the first slot from \<open>i\<close> on whose descriptor is \<open>sock\<close>.\<close>

fun find_slot :: "io_slot list \<Rightarrow> int \<Rightarrow> nat \<Rightarrow> nat option" where
  "find_slot [] sock i = None"
| "find_slot (e # es) sock i = (if io_fd e = sock then Some i else find_slot es sock (Suc i))"

text \<open>Stopping and releasing the slot of a descriptor; starting a free slot. \<open>w\<close> names the watchers.\<close>

definition release_slot :: "(nat \<Rightarrow> watcher) \<Rightarrow> int \<Rightarrow> io_slot list \<times> call list \<Rightarrow> io_slot list \<times> call list" where
  "release_slot w fd = (\<lambda>(slots, calls).
     case find_slot slots fd 0 of
       None \<Rightarrow> (slots, calls)
     | Some i \<Rightarrow> (slots[i := (slots ! i)\<lparr>io_fd := 0\<rparr>], calls @ [Ev_stop (w i)]))"

definition reserve_slot ::
  "(nat \<Rightarrow> watcher) \<Rightarrow> int \<Rightarrow> bool \<Rightarrow> bool \<Rightarrow> io_slot list \<times> call list \<Rightarrow> (io_slot list \<times> call list) option" where
  "reserve_slot w fd rd wr = (\<lambda>(slots, calls).
     case find_slot slots 0 0 of
       None \<Rightarrow> None
     | Some i \<Rightarrow> Some (slots[i := \<lparr>io_fd = fd, io_read = rd, io_write = wr\<rparr>], calls @ [Ev_start (w i)]))"

section \<open>Specification\<close>

text \<open>Which descriptors are watched, for which events.\<close>

definition watched :: "io_slot list \<Rightarrow> int \<Rightarrow> (bool \<times> bool) option" where
  "watched slots fd =
     (if fd = 0 then None
      else case find_slot slots fd 0 of None \<Rightarrow> None | Some i \<Rightarrow> Some (io_read (slots ! i), io_write (slots ! i)))"

text \<open>No descriptor has two slots, and libev watches exactly the slots in use.\<close>

definition slots_ok :: "(nat \<Rightarrow> watcher) \<Rightarrow> io_slot list \<times> call list \<Rightarrow> bool" where
  "slots_ok w = (\<lambda>(slots, calls).
     (\<forall>i j. i < length slots \<longrightarrow> j < length slots \<longrightarrow> io_fd (slots ! i) = io_fd (slots ! j) \<longrightarrow>
        io_fd (slots ! i) \<noteq> 0 \<longrightarrow> i = j) \<and>
     (\<forall>i. ev_active calls (w i) \<longleftrightarrow> i < length slots \<and> io_fd (slots ! i) \<noteq> 0))"

text \<open>
  The events that libev watches on a descriptor, by the active watchers of the table. It is a set, since
  nothing but the code keeps two watchers from having the same descriptor.
\<close>

definition libev_watches :: "(nat \<Rightarrow> watcher) \<Rightarrow> io_slot list \<Rightarrow> call list \<Rightarrow> int \<Rightarrow> (bool \<times> bool) set" where
  "libev_watches w slots calls fd =
     {(io_read (slots ! i), io_write (slots ! i)) | i. ev_active calls (w i) \<and> i < length slots \<and> io_fd (slots ! i) = fd}"

definition free_slots :: "io_slot list \<Rightarrow> nat" where
  "free_slots slots = length (filter (\<lambda>e. io_fd e = 0) slots)"

section \<open>Lemmas\<close>

lemma find_slot_None: "find_slot slots fd k = None \<longleftrightarrow> (\<forall>e \<in> set slots. io_fd e \<noteq> fd)"
  by (induction slots fd k rule: find_slot.induct) auto

lemma find_slot_Some:
  "find_slot slots fd k = Some i \<Longrightarrow>
   k \<le> i \<and> i - k < length slots \<and> io_fd (slots ! (i - k)) = fd \<and> (\<forall>j < i - k. io_fd (slots ! j) \<noteq> fd)"
proof (induction slots fd k arbitrary: i rule: find_slot.induct)
  case (2 e es sock k)
  show ?case
  proof (cases "io_fd e = sock")
    case True
    with 2(2) show ?thesis by simp
  next
    case False
    with 2 have IH: "Suc k \<le> i \<and> i - Suc k < length es \<and> io_fd (es ! (i - Suc k)) = sock \<and>
        (\<forall>j < i - Suc k. io_fd (es ! j) \<noteq> sock)" by simp
    then have "i - k = Suc (i - Suc k)" by linarith
    with IH False show ?thesis by (auto simp: less_Suc_eq_0_disj)
  qed
qed simp

lemma find_slot_0: "find_slot slots fd 0 = Some i \<Longrightarrow> i < length slots \<and> io_fd (slots ! i) = fd"
  using find_slot_Some [of slots fd 0 i] by simp

lemma watched_Some_iff:
  assumes "slots_ok w (slots, calls)" "fd \<noteq> 0"
  shows "watched slots fd = Some (rd, wr) \<longleftrightarrow>
     (\<exists>i < length slots. io_fd (slots ! i) = fd \<and> io_read (slots ! i) = rd \<and> io_write (slots ! i) = wr)"
proof
  assume "watched slots fd = Some (rd, wr)"
  then obtain i where "find_slot slots fd 0 = Some i" "io_read (slots ! i) = rd" "io_write (slots ! i) = wr"
    using assms(2) by (auto simp: watched_def split: option.splits)
  with find_slot_0 show "\<exists>i < length slots. io_fd (slots ! i) = fd \<and> io_read (slots ! i) = rd \<and> io_write (slots ! i) = wr"
    by blast
next
  assume "\<exists>i < length slots. io_fd (slots ! i) = fd \<and> io_read (slots ! i) = rd \<and> io_write (slots ! i) = wr"
  then obtain i where i: "i < length slots" "io_fd (slots ! i) = fd" "io_read (slots ! i) = rd" "io_write (slots ! i) = wr"
    by blast
  then obtain j where j: "find_slot slots fd 0 = Some j"
    using find_slot_None [of slots fd 0] by (cases "find_slot slots fd 0") auto
  then have "j < length slots" "io_fd (slots ! j) = fd" using find_slot_0 by auto
  with i(1,2) assms have "j = i" by (simp add: slots_ok_def)
  with i j assms(2) show "watched slots fd = Some (rd, wr)" by (simp add: watched_def)
qed

text \<open>What the table says is what libev does.\<close>

lemma libev_watches_table:
  assumes "slots_ok w (slots, calls)"
  shows "libev_watches w slots calls fd = set_option (watched slots fd)"
proof (cases "fd = 0")
  case True
  with assms show ?thesis by (auto simp: libev_watches_def watched_def slots_ok_def)
next
  case False
  have "x \<in> libev_watches w slots calls fd \<longleftrightarrow> watched slots fd = Some x" for x
    using watched_Some_iff [OF assms False] assms False
    by (cases x) (auto simp: libev_watches_def slots_ok_def)
  then show ?thesis by auto
qed

lemma watched_None_iff:
  "fd \<noteq> 0 \<Longrightarrow> watched slots fd = None \<longleftrightarrow> (\<forall>e \<in> set slots. io_fd e \<noteq> fd)"
  using find_slot_None [of slots fd 0] by (auto simp: watched_def split: option.splits)

text \<open>Two tables watch the same descriptors if they have the same entries in use.\<close>

lemma watched_eqI:
  assumes "slots_ok w (s1, c1)" "slots_ok w' (s2, c2)"
    and "\<And>i. i < length s2 \<Longrightarrow> io_fd (s2 ! i) = fd \<Longrightarrow>
            \<exists>j < length s1. io_fd (s1 ! j) = fd \<and> io_read (s1 ! j) = io_read (s2 ! i) \<and> io_write (s1 ! j) = io_write (s2 ! i)"
    and "\<And>j. j < length s1 \<Longrightarrow> io_fd (s1 ! j) = fd \<Longrightarrow>
            \<exists>i < length s2. io_fd (s2 ! i) = fd \<and> io_read (s2 ! i) = io_read (s1 ! j) \<and> io_write (s2 ! i) = io_write (s1 ! j)"
  shows "watched s2 fd = watched s1 fd"
proof (cases "fd = 0")
  case False
  have "watched s2 fd = Some (rd, wr) \<longleftrightarrow> watched s1 fd = Some (rd, wr)" for rd wr
    using assms(3,4) by (auto simp: watched_Some_iff [OF assms(1) False] watched_Some_iff [OF assms(2) False])
  then show ?thesis by (metis option.exhaust surj_pair)
qed (simp add: watched_def)

lemma release_slot_correct:
  assumes "slots_ok w sc" "inj w" "fd \<noteq> 0"
  shows "slots_ok w (release_slot w fd sc)"
    and "watched (fst (release_slot w fd sc)) = (watched (fst sc))(fd := None)"
    and "length (fst (release_slot w fd sc)) = length (fst sc)"
proof -
  obtain slots calls where sc: "sc = (slots, calls)" by fastforce
  show "slots_ok w (release_slot w fd sc)" "watched (fst (release_slot w fd sc)) = (watched (fst sc))(fd := None)"
    "length (fst (release_slot w fd sc)) = length (fst sc)"
  proof (atomize(full), cases "find_slot slots fd 0")
    case None
    then have "watched slots fd = None" using assms(3) by (simp add: watched_def)
    then show "slots_ok w (release_slot w fd sc) \<and> watched (fst (release_slot w fd sc)) = (watched (fst sc))(fd := None) \<and>
      length (fst (release_slot w fd sc)) = length (fst sc)"
      using None assms(1) by (simp add: release_slot_def sc fun_upd_idem)
  next
    case (Some i)
    then have i: "i < length slots" "io_fd (slots ! i) = fd" using find_slot_0 by auto
    let ?s = "slots[i := (slots ! i)\<lparr>io_fd := 0\<rparr>]"
    have uniq: "\<And>a b. a < length slots \<Longrightarrow> b < length slots \<Longrightarrow> io_fd (slots ! a) = io_fd (slots ! b) \<Longrightarrow>
        io_fd (slots ! a) \<noteq> 0 \<Longrightarrow> a = b" and act: "\<And>a. ev_active calls (w a) \<longleftrightarrow> a < length slots \<and> io_fd (slots ! a) \<noteq> 0"
      using assms(1) by (auto simp: slots_ok_def sc)
    have ok: "slots_ok w (?s, calls @ [Ev_stop (w i)])"
      using uniq act i assms(2,3)
      by (auto simp: slots_ok_def ev_active_append nth_list_update inj_eq)
    have "watched ?s x = ((watched slots)(fd := None)) x" for x
    proof (cases "x = fd")
      case True
      have "io_fd (?s ! j) \<noteq> fd" if "j < length slots" for j
        using that uniq [of j i] i assms(3) by (cases "j = i") auto
      then have "\<forall>e \<in> set ?s. io_fd e \<noteq> fd" by (metis in_set_conv_nth length_list_update)
      then show ?thesis using True watched_None_iff [OF assms(3)] by simp
    next
      case False
      have "watched ?s x = watched slots x" if "x \<noteq> 0"
        by (rule watched_eqI [OF assms(1) [unfolded sc] ok])
          (use i False that in \<open>auto simp: nth_list_update split: if_splits\<close>)
      then show ?thesis using False by (cases "x = 0") (simp_all add: watched_def)
    qed
    with ok Some show "slots_ok w (release_slot w fd sc) \<and>
      watched (fst (release_slot w fd sc)) = (watched (fst sc))(fd := None) \<and>
      length (fst (release_slot w fd sc)) = length (fst sc)"
      by (auto simp: release_slot_def sc)
  qed
qed

lemma reserve_slot_correct:
  assumes "slots_ok w sc" "inj w" "fd \<noteq> 0" "watched (fst sc) fd = None" "reserve_slot w fd rd wr sc = Some sc'"
  shows "slots_ok w sc'" and "watched (fst sc') = (watched (fst sc))(fd \<mapsto> (rd, wr))"
    and "length (fst sc') = length (fst sc)"
proof -
  obtain slots calls where sc: "sc = (slots, calls)" by fastforce
  obtain i where i: "find_slot slots 0 0 = Some i"
    using assms(5) by (auto simp: reserve_slot_def sc split: option.splits)
  then have lt: "i < length slots" "io_fd (slots ! i) = 0" using find_slot_0 by auto
  let ?s = "slots[i := \<lparr>io_fd = fd, io_read = rd, io_write = wr\<rparr>]"
  have sc': "sc' = (?s, calls @ [Ev_start (w i)])" using assms(5) i by (simp add: reserve_slot_def sc)
  have uniq: "\<And>a b. a < length slots \<Longrightarrow> b < length slots \<Longrightarrow> io_fd (slots ! a) = io_fd (slots ! b) \<Longrightarrow>
      io_fd (slots ! a) \<noteq> 0 \<Longrightarrow> a = b" and act: "\<And>a. ev_active calls (w a) \<longleftrightarrow> a < length slots \<and> io_fd (slots ! a) \<noteq> 0"
    using assms(1) by (auto simp: slots_ok_def sc)
  have new: "\<And>a. a < length slots \<Longrightarrow> io_fd (slots ! a) \<noteq> fd"
    using assms(4) watched_None_iff [OF assms(3)] by (auto simp: sc)
  have ok: "slots_ok w (?s, calls @ [Ev_start (w i)])"
    using uniq act lt new assms(2,3)
    by (auto simp: slots_ok_def ev_active_append nth_list_update inj_eq split: if_splits)
  show "slots_ok w sc'" "length (fst sc') = length (fst sc)" using ok by (simp_all add: sc' sc)
  have "watched ?s x = ((watched slots)(fd \<mapsto> (rd, wr))) x" for x
  proof (cases "x = fd")
    case True
    then show ?thesis using watched_Some_iff [OF ok assms(3), of rd wr] lt by auto
  next
    case False
    have "watched ?s x = watched slots x" if "x \<noteq> 0"
      by (rule watched_eqI [OF assms(1) [unfolded sc] ok])
        (use lt False that in \<open>auto simp: nth_list_update split: if_splits\<close>)
    then show ?thesis using False by (cases "x = 0") (simp_all add: watched_def)
  qed
  then show "watched (fst sc') = (watched (fst sc))(fd \<mapsto> (rd, wr))" by (auto simp: sc' sc)
qed

lemma reserve_slot_None: "reserve_slot w fd rd wr (slots, calls) = None \<longleftrightarrow> (\<forall>e \<in> set slots. io_fd e \<noteq> 0)"
  using find_slot_None [of slots 0 0] by (auto simp: reserve_slot_def split: option.splits)

section \<open>The interface\<close>

text \<open>
  What a library that reports the events it wants on its sockets may rely on: \<open>watch fd ev\<close> replaces
  whatever was watched on \<open>fd\<close>, or reports that there is no room.
\<close>

locale socket_watcher =
  fixes watch :: "int \<Rightarrow> (bool \<times> bool) option \<Rightarrow> 's \<Rightarrow> 's option"
    and table :: "'s \<Rightarrow> int \<Rightarrow> (bool \<times> bool) option"
    and inv :: "'s \<Rightarrow> bool"
  assumes watch_inv: "inv s \<Longrightarrow> fd \<noteq> 0 \<Longrightarrow> watch fd ev s = Some s' \<Longrightarrow> inv s'"
    and watch_table: "inv s \<Longrightarrow> fd \<noteq> 0 \<Longrightarrow> watch fd ev s = Some s' \<Longrightarrow> table s' = (table s)(fd := ev)"
    and watch_remove: "inv s \<Longrightarrow> fd \<noteq> 0 \<Longrightarrow> watch fd None s \<noteq> None"
begin

fun watch_all :: "(int \<times> (bool \<times> bool) option) list \<Rightarrow> 's \<Rightarrow> 's option" where
  "watch_all [] s = Some s"
| "watch_all ((fd, ev) # es) s = Option.bind (watch fd ev s) (watch_all es)"

lemma watch_all_table:
  "inv s \<Longrightarrow> \<forall>(fd, ev) \<in> set es. fd \<noteq> 0 \<Longrightarrow> watch_all es s = Some s' \<Longrightarrow>
   inv s' \<and> table s' = fold (\<lambda>(fd, ev) t. t(fd := ev)) es (table s)"
proof (induction es s rule: watch_all.induct)
  case (2 fd ev es s)
  then obtain s1 where s1: "watch fd ev s = Some s1" "watch_all es s1 = Some s'"
    by (cases "watch fd ev s") auto
  with 2(2,3) have "inv s1" "table s1 = (table s)(fd := ev)"
    using watch_inv watch_table by auto
  with 2(1) [OF s1(1)] s1 2(3) show ?case by simp
qed simp

end

end
