(* ===== verification/Dns_Poller.thy ===== *)
theory Dns_Poller
  imports Io_Slots
begin

text \<open>
  The bootstrap resolver, src/src/dns_poller.c: it asks c-ares for the addresses of the resolver's host
  name, at first and then periodically, and hands them over as a comma-separated list. c-ares is outside:
  every call into it delivers a sequence of callbacks (\<open>ares_event\<close>), which is an argument of the model,
  and the handlers run them in that order. \<open>ntop\<close> stands for \<open>ares_inet_ntop\<close>, which writes the text of an
  address if it fits with its NUL and fails otherwise.
\<close>

section \<open>Data\<close>

definition POLLER_ADDR_LIST_SIZE :: nat where
  "POLLER_ADDR_LIST_SIZE = 1024"

text \<open>A local address set on the channel of c-ares.\<close>

datatype local_ip = Local_ip4 bytes | Local_ip6 bytes

record dns_poller =
  p_hostname :: string
  p_family :: family
  p_local_ip :: "local_ip option"
  p_polling_interval :: int
  p_request_ongoing :: bool
  p_io_events :: "io_slot list"
  p_calls :: "call list"

type_synonym addr_node = "family \<times> bytes"

datatype ares_status = ARES_SUCCESS | ARES_EDESTRUCTION | ARES_error nat

text \<open>A callback of c-ares: a socket changes state, or a lookup ends (\<open>None\<close>: no result structure).\<close>

datatype ares_event =
    Sock_state int bool bool
  | Lookup_done ares_status "addr_node list option"

text \<open>The consumer of address lists; \<open>None\<close> is a null pointer.\<close>

type_synonym 's addr_cb = "string option \<Rightarrow> 's \<Rightarrow> 's res"

section \<open>Sockets of c-ares\<close>

text \<open>\<open>get_io_event\<close>: the first slot with that descriptor.\<close>

definition poller_get_io_event :: "dns_poller \<Rightarrow> int \<Rightarrow> nat option" where
  "poller_get_io_event d sock = find_slot (p_io_events d) sock 0"

definition sock_state_cb :: "int \<Rightarrow> bool \<Rightarrow> bool \<Rightarrow> dns_poller \<Rightarrow> dns_poller res" where
  "sock_state_cb fd rd wr d =
     (let (slots, calls) = release_slot Poller_io fd (p_io_events d, p_calls d);
          d1 = d\<lparr>p_io_events := slots, p_calls := calls\<rparr>
      in if \<not> rd \<and> \<not> wr then Inr d1
         else (case reserve_slot Poller_io fd rd wr (p_io_events d1, p_calls d1) of
                 None \<Rightarrow> Inl Fatal
               | Some (slots2, calls2) \<Rightarrow> Inr (d1\<lparr>p_io_events := slots2, p_calls := calls2\<rparr>)))"

section \<open>The address list\<close>

text \<open>
  The loop over the nodes; the argument is the text written so far, whose length is \<open>pos - list\<close>.
\<close>

fun listing_loop :: "(addr_node \<Rightarrow> string) \<Rightarrow> addr_node list \<Rightarrow> string \<Rightarrow> string" where
  "listing_loop ntop [] out = out"
| "listing_loop ntop (node # nodes) out =
     (if length out \<ge> POLLER_ADDR_LIST_SIZE - 1 then out
      else
        (let remaining = POLLER_ADDR_LIST_SIZE - 1 - length out
         in if fst node = AF_INET \<or> fst node = AF_INET6
            then (if length (ntop node) < remaining
                  then (let out1 = out @ ntop node
                        in if length out1 \<ge> POLLER_ADDR_LIST_SIZE - 1 then out1
                           else listing_loop ntop nodes (out1 @ '',''))
                  else out)
            else listing_loop ntop nodes out))"

text \<open>The last character is replaced by the NUL; nothing written gives a null pointer.\<close>

definition get_addr_listing :: "bool \<Rightarrow> (addr_node \<Rightarrow> string) \<Rightarrow> addr_node list \<Rightarrow> string option res" where
  "get_addr_listing alloc ntop nodes =
     (if \<not> alloc then Inl Fatal
      else (let out = listing_loop ntop nodes []
            in Inr (if out = [] then None else Some (butlast out))))"

section \<open>Results and timers\<close>

definition set_timer :: "ev_tstamp \<Rightarrow> dns_poller \<Rightarrow> dns_poller" where
  "set_timer interval d =
     d\<lparr>p_calls := p_calls d @ [Ev_stop Poller_timer, Ev_set Poller_timer interval 0, Ev_start Poller_timer]\<rparr>"

definition ares_cb ::
  "bool \<Rightarrow> (addr_node \<Rightarrow> string) \<Rightarrow> 's addr_cb \<Rightarrow> ares_status \<Rightarrow> addr_node list option \<Rightarrow> dns_poller \<times> 's \<Rightarrow>
   (dns_poller \<times> 's) res" where
  "ares_cb alloc ntop cb status result = (\<lambda>(d, s).
     let d1 = d\<lparr>p_request_ongoing := False\<rparr>
     in bind_res
          (if status \<noteq> ARES_SUCCESS then Inr (5, s)
           else (case result of
                   None \<Rightarrow> Inr (5, s)
                 | Some nodes \<Rightarrow>
                     if nodes = [] then Inr (5, s)
                     else bind_res (get_addr_listing alloc ntop nodes) (\<lambda>addr_list.
                          bind_res (cb addr_list s) (\<lambda>s'. Inr (of_int (p_polling_interval d), s')))))
          (\<lambda>(interval, s'). Inr (if status \<noteq> ARES_EDESTRUCTION then set_timer interval d1 else d1, s')))"

text \<open>The callbacks that a call into c-ares delivers.\<close>

fun ares_run ::
  "bool \<Rightarrow> (addr_node \<Rightarrow> string) \<Rightarrow> 's addr_cb \<Rightarrow> ares_event list \<Rightarrow> dns_poller \<times> 's \<Rightarrow> (dns_poller \<times> 's) res" where
  "ares_run alloc ntop cb [] ds = Inr ds"
| "ares_run alloc ntop cb (Sock_state fd rd wr # es) ds =
     bind_res (sock_state_cb fd rd wr (fst ds)) (\<lambda>d'. ares_run alloc ntop cb es (d', snd ds))"
| "ares_run alloc ntop cb (Lookup_done status result # es) ds =
     bind_res (ares_cb alloc ntop cb status result ds) (ares_run alloc ntop cb es)"

text \<open>\<open>sock_cb\<close>: c-ares processes the descriptor that is ready.\<close>

definition poller_sock_cb ::
  "bool \<Rightarrow> (addr_node \<Rightarrow> string) \<Rightarrow> 's addr_cb \<Rightarrow> ares_event list \<Rightarrow> dns_poller \<times> 's \<Rightarrow> (dns_poller \<times> 's) res" where
  "poller_sock_cb alloc ntop cb events ds = ares_run alloc ntop cb events ds"

text \<open>\<open>tv\<close> is what \<open>ares_timeout\<close> gives, in seconds and microseconds.\<close>

definition get_timeout :: "int \<times> int \<Rightarrow> ev_tstamp" where
  "get_timeout tv = (let after = of_int (fst tv) + of_int (snd tv) / 1000000 in if after > 1 / 10 then after else 1 / 10)"

text \<open>
  \<open>ongoing_events\<close> are the callbacks of processing timeouts, \<open>cancel_events\<close> those of \<open>ares_cancel\<close>,
  \<open>lookup_events\<close> those of \<open>ares_getaddrinfo\<close>.
\<close>

definition poller_timer_cb ::
  "bool \<Rightarrow> (addr_node \<Rightarrow> string) \<Rightarrow> 's addr_cb \<Rightarrow> ares_event list \<Rightarrow> ares_event list \<Rightarrow> ares_event list \<Rightarrow> int \<times> int \<Rightarrow>
   dns_poller \<times> 's \<Rightarrow> (dns_poller \<times> 's) res" where
  "poller_timer_cb alloc ntop cb ongoing_events cancel_events lookup_events tv ds =
     bind_res
       (if p_request_ongoing (fst ds) then ares_run alloc ntop cb ongoing_events ds
        else bind_res (ares_run alloc ntop cb cancel_events ds) (\<lambda>(d1, s1).
             ares_run alloc ntop cb lookup_events (d1\<lparr>p_request_ongoing := True\<rparr>, s1)))
       (\<lambda>(d2, s2). Inr (if p_request_ongoing d2 then set_timer (get_timeout tv) d2 else d2, s2))"

section \<open>Starting and stopping\<close>

text \<open>\<open>pton4\<close> and \<open>pton6\<close> are \<open>inet_pton\<close> for the two families; the result is the address set on the channel.\<close>

definition set_bootstrap_source_addr ::
  "(string \<Rightarrow> bytes option) \<Rightarrow> (string \<Rightarrow> bytes option) \<Rightarrow> string option \<Rightarrow> family \<Rightarrow> local_ip option" where
  "set_bootstrap_source_addr pton4 pton6 source_addr family =
     (case source_addr of
        None \<Rightarrow> None
      | Some a \<Rightarrow>
          (case pton4 a of
             Some b \<Rightarrow> if family = AF_INET6 then None else Some (Local_ip4 b)
           | None \<Rightarrow>
               (case pton6 a of
                  Some b \<Rightarrow> if family = AF_INET then None else Some (Local_ip6 b)
                | None \<Rightarrow> None)))"

text \<open>Whether the three set-up calls of c-ares and the allocation succeed, and \<open>inet_pton\<close> for both families.\<close>

record poller_env =
  pe_library_init :: bool
  pe_init_options :: bool
  pe_set_servers :: bool
  pe_alloc :: bool
  pe_pton4 :: "string \<Rightarrow> bytes option"
  pe_pton6 :: "string \<Rightarrow> bytes option"

definition count_nameservers :: "string \<Rightarrow> nat" where
  "count_nameservers bootstrap_dns = 1 + length (filter (\<lambda>c. c = CHR '','') bootstrap_dns)"

definition dns_poller_init :: "poller_env \<Rightarrow> string \<Rightarrow> int \<Rightarrow> string option \<Rightarrow> string \<Rightarrow> family \<Rightarrow> dns_poller res" where
  "dns_poller_init env bootstrap_dns interval source_addr hostname family =
     (if \<not> pe_library_init env then Inl Fatal
      else if \<not> pe_init_options env then Inl Fatal
      else if \<not> pe_set_servers env then Inl Fatal
      else if \<not> pe_alloc env then Inl Fatal
      else Inr \<lparr>p_hostname = hostname, p_family = family,
                p_local_ip = set_bootstrap_source_addr (pe_pton4 env) (pe_pton6 env) source_addr family,
                p_polling_interval = interval, p_request_ongoing = False,
                p_io_events = replicate (count_nameservers bootstrap_dns)
                  \<lparr>io_fd = 0, io_read = False, io_write = False\<rparr>,
                p_calls = [Ev_set Poller_timer 0 0, Ev_start Poller_timer]\<rparr>)"

text \<open>\<open>events\<close> are the callbacks of \<open>ares_destroy\<close>.\<close>

definition dns_poller_cleanup ::
  "bool \<Rightarrow> (addr_node \<Rightarrow> string) \<Rightarrow> 's addr_cb \<Rightarrow> ares_event list \<Rightarrow> dns_poller \<times> 's \<Rightarrow> (dns_poller \<times> 's) res" where
  "dns_poller_cleanup alloc ntop cb events ds =
     bind_res (ares_run alloc ntop cb events ds)
       (\<lambda>(d, s). Inr (d\<lparr>p_calls := p_calls d @ [Ev_stop Poller_timer], p_io_events := []\<rparr>, s))"

section \<open>Correctness of the address list\<close>

fun comma_join :: "string list \<Rightarrow> string" where
  "comma_join [] = []"
| "comma_join [t] = t"
| "comma_join (t # ts) = t @ '','' @ comma_join ts"

definition handled :: "addr_node \<Rightarrow> bool" where
  "handled node \<longleftrightarrow> fst node = AF_INET \<or> fst node = AF_INET6"

definition with_commas :: "string list \<Rightarrow> string" where
  "with_commas ts = concat (map (\<lambda>t. t @ '','') ts)"

lemma with_commas_append [simp]: "with_commas (ts @ us) = with_commas ts @ with_commas us"
  by (simp add: with_commas_def)

lemma with_commas_single [simp]: "with_commas [t] = t @ '',''" "with_commas [] = []"
  by (simp_all add: with_commas_def)

lemma butlast_with_commas: "butlast (with_commas ts) = comma_join ts"
proof (induction ts rule: comma_join.induct)
  case (3 t t' ts)
  have "with_commas (t # t' # ts) = t @ '','' @ with_commas (t' # ts)" by (simp add: with_commas_def)
  moreover have "with_commas (t' # ts) \<noteq> []" by (simp add: with_commas_def)
  ultimately show ?case using 3 by (simp add: butlast_append)
qed (simp_all add: with_commas_def)

text \<open>The loop takes the longest prefix of the handled addresses that fits.\<close>

lemma listing_loop_prefix:
  assumes "length (with_commas ts) \<le> 1023"
  shows "\<exists>us rest. map ntop (filter handled nodes) = us @ rest \<and>
     listing_loop ntop nodes (with_commas ts) = with_commas (ts @ us) \<and>
     length (with_commas (ts @ us)) \<le> 1023 \<and>
     (rest = [] \<or> 1023 \<le> length (with_commas (ts @ us)) + length (hd rest))"
  using assms
proof (induction nodes arbitrary: ts)
  case Nil
  then show ?case by auto
next
  case (Cons node nodes)
  let ?out = "with_commas ts" and ?t = "ntop node"
  consider (full) "1023 \<le> length ?out" | (other) "length ?out < 1023" "\<not> handled node"
    | (fits) "length ?out < 1023" "handled node" "length ?out + length ?t < 1023"
    | (big) "length ?out < 1023" "handled node" "1023 \<le> length ?out + length ?t"
    by linarith
  then show ?case
  proof cases
    case full
    then have run: "listing_loop ntop (node # nodes) ?out = ?out" by (simp add: POLLER_ADDR_LIST_SIZE_def)
    show ?thesis
      by (rule exI [of _ "[]"], rule exI [of _ "map ntop (filter handled (node # nodes))"])
        (use run full Cons.prems in \<open>auto simp: hd_map\<close>)
  next
    case other
    then have "listing_loop ntop (node # nodes) ?out = listing_loop ntop nodes ?out"
      by (simp add: handled_def POLLER_ADDR_LIST_SIZE_def)
    with Cons.IH [OF Cons.prems] other show ?thesis by (simp add: handled_def)
  next
    case fits
    then have run: "listing_loop ntop (node # nodes) ?out = listing_loop ntop nodes (with_commas (ts @ [?t]))"
      by (auto simp: handled_def POLLER_ADDR_LIST_SIZE_def Let_def)
    have "length (with_commas (ts @ [?t])) \<le> 1023" using fits by simp
    from Cons.IH [OF this] obtain us rest where "map ntop (filter handled nodes) = us @ rest"
      "listing_loop ntop nodes (with_commas (ts @ [?t])) = with_commas (ts @ ?t # us)"
      "length (with_commas (ts @ ?t # us)) \<le> 1023"
      "rest = [] \<or> 1023 \<le> length (with_commas (ts @ ?t # us)) + length (hd rest)" by auto
    with run fits(2) show ?thesis by (intro exI [of _ "?t # us"] exI [of _ rest]) (simp del: with_commas_append)
  next
    case big
    then have run: "listing_loop ntop (node # nodes) ?out = ?out"
      by (auto simp: handled_def POLLER_ADDR_LIST_SIZE_def Let_def)
    show ?thesis
      by (rule exI [of _ "[]"], rule exI [of _ "map ntop (filter handled (node # nodes))"])
        (use run big Cons.prems in \<open>simp del: listing_loop.simps\<close>)
  qed
qed

lemma comma_join_length: "ts \<noteq> [] \<Longrightarrow> Suc (length (comma_join ts)) = length (with_commas ts)"
  by (induction ts rule: comma_join.induct) (simp_all add: with_commas_def)

lemma addr_listing_prefix:
  obtains us rest where "map ntop (filter handled nodes) = us @ rest"
    "get_addr_listing True ntop nodes = Inr (if us = [] then None else Some (comma_join us))"
    "us = [] \<or> length (comma_join us) \<le> 1022"
    "rest = [] \<or> 1023 \<le> length (with_commas us) + length (hd rest)"
proof -
  obtain us rest where u: "map ntop (filter handled nodes) = us @ rest"
      "listing_loop ntop nodes [] = with_commas us" "length (with_commas us) \<le> 1023"
      "rest = [] \<or> 1023 \<le> length (with_commas us) + length (hd rest)"
    using listing_loop_prefix [of "[]" ntop nodes] by auto
  have "with_commas us = [] \<longleftrightarrow> us = []" by (cases us) (simp_all add: with_commas_def)
  then have "get_addr_listing True ntop nodes = Inr (if us = [] then None else Some (comma_join us))"
    using u(2) by (simp add: get_addr_listing_def butlast_with_commas)
  moreover have "us = [] \<or> length (comma_join us) \<le> 1022"
    using comma_join_length [of us] u(3) by (cases "us = []") simp_all
  ultimately show thesis using that u(1,4) by blast
qed

section \<open>Sockets\<close>

definition poller_ok :: "dns_poller \<Rightarrow> bool" where
  "poller_ok d \<longleftrightarrow> slots_ok Poller_io (p_io_events d, p_calls d)"

lemma inj_Poller_io: "inj Poller_io"
  by (simp add: inj_def)

lemma sock_state_cb_watch:
  assumes "poller_ok d" "fd \<noteq> 0" "sock_state_cb fd rd wr d = Inr d'"
  shows "poller_ok d'"
    and "watched (p_io_events d') = (watched (p_io_events d))(fd := if rd \<or> wr then Some (rd, wr) else None)"
proof -
  obtain s1 c1 where rel: "release_slot Poller_io fd (p_io_events d, p_calls d) = (s1, c1)" by fastforce
  have r: "slots_ok Poller_io (s1, c1)" "watched s1 = (watched (p_io_events d))(fd := None)"
    using release_slot_correct [OF _ inj_Poller_io assms(2), of "(p_io_events d, p_calls d)"] assms(1) rel
    by (simp_all add: poller_ok_def)
  have "poller_ok d' \<and> watched (p_io_events d') = (watched (p_io_events d))(fd := if rd \<or> wr then Some (rd, wr) else None)"
  proof (cases "rd \<or> wr")
    case False
    with assms(3) rel r show ?thesis by (auto simp: sock_state_cb_def poller_ok_def)
  next
    case True
    with assms(3) rel obtain s2 c2 where s2: "reserve_slot Poller_io fd rd wr (s1, c1) = Some (s2, c2)"
        "d' = d\<lparr>p_io_events := s2, p_calls := c2\<rparr>"
      by (auto simp: sock_state_cb_def split: option.splits)
    with reserve_slot_correct [OF r(1) inj_Poller_io assms(2), of rd wr "(s2, c2)"] r(2) True
    show ?thesis by (simp add: poller_ok_def)
  qed
  then show "poller_ok d'"
    and "watched (p_io_events d') = (watched (p_io_events d))(fd := if rd \<or> wr then Some (rd, wr) else None)"
    by blast+
qed

text \<open>The contract with c-ares: asking for no event at all is the removal of the socket.\<close>

definition poller_watch :: "int \<Rightarrow> (bool \<times> bool) option \<Rightarrow> dns_poller \<Rightarrow> dns_poller option" where
  "poller_watch fd ev d =
     (case ev of
        None \<Rightarrow> (case sock_state_cb fd False False d of Inl _ \<Rightarrow> None | Inr d' \<Rightarrow> Some d')
      | Some (rd, wr) \<Rightarrow>
          if rd \<or> wr then (case sock_state_cb fd rd wr d of Inl _ \<Rightarrow> None | Inr d' \<Rightarrow> Some d') else None)"

interpretation poller_sockets: socket_watcher poller_watch "\<lambda>d. watched (p_io_events d)" poller_ok
proof unfold_locales
  fix d d' fd ev
  assume d: "poller_ok d" "fd \<noteq> 0" "poller_watch fd ev d = Some d'"
  then show "poller_ok d'"
    using sock_state_cb_watch(1) [OF d(1,2)]
    by (auto simp: poller_watch_def split: option.splits sum.splits if_splits)
  show "watched (p_io_events d') = (watched (p_io_events d))(fd := ev)"
    using d(3) sock_state_cb_watch(2) [OF d(1,2)]
    by (auto simp: poller_watch_def split: option.splits sum.splits if_splits)
next
  fix d fd
  show "poller_watch fd None d \<noteq> None"
    by (auto simp: poller_watch_def sock_state_cb_def split: sum.splits prod.splits)
qed

section \<open>The poll timer\<close>

lemma ev_active_other_slots:
  "ev_active (snd (release_slot Poller_io fd (slots, calls))) Poller_timer = ev_active calls Poller_timer"
  "reserve_slot Poller_io fd rd wr (slots, calls) = Some (slots', calls') \<Longrightarrow>
   ev_active calls' Poller_timer = ev_active calls Poller_timer"
  by (auto simp: release_slot_def reserve_slot_def ev_active_append split: option.splits)

lemma sock_state_cb_timer:
  "sock_state_cb fd rd wr d = Inr d' \<Longrightarrow>
   ev_active (p_calls d') Poller_timer = ev_active (p_calls d) Poller_timer \<and> p_request_ongoing d' = p_request_ongoing d"
  using ev_active_other_slots(1) [of fd "p_io_events d" "p_calls d"]
  by (auto simp: sock_state_cb_def Let_def ev_active_other_slots(2) split: prod.splits if_splits option.splits)

lemma set_timer_simps [simp]:
  "ev_active (p_calls (set_timer i d)) Poller_timer" "p_request_ongoing (set_timer i d) = p_request_ongoing d"
  "poller_ok (set_timer i d) = poller_ok d"
  by (simp_all add: set_timer_def ev_active_append poller_ok_def slots_ok_def)

text \<open>A lookup that ends otherwise than by destruction of the channel restarts the timer.\<close>

lemma ares_cb_timer:
  assumes "ares_cb alloc ntop cb status result ds = Inr (d', s')" "status \<noteq> ARES_EDESTRUCTION"
  shows "ev_active (p_calls d') Poller_timer \<and> \<not> p_request_ongoing d'"
    and "poller_ok (fst ds) \<Longrightarrow> poller_ok d'"
proof -
  obtain d s where ds: "ds = (d, s)" by fastforce
  obtain i where d': "d' = set_timer i (d\<lparr>p_request_ongoing := False\<rparr>)"
    using assms unfolding ares_cb_def Let_def ds prod.case bind_res_Inr_iff
    by (auto simp del: bind_res_Inr_iff)
  show "ev_active (p_calls d') Poller_timer \<and> \<not> p_request_ongoing d'"
    and "poller_ok (fst ds) \<Longrightarrow> poller_ok d'"
    by (simp_all add: d' ds) (simp add: poller_ok_def)
qed

definition no_destruction :: "ares_event list \<Rightarrow> bool" where
  "no_destruction es \<longleftrightarrow> (\<forall>r. Lookup_done ARES_EDESTRUCTION r \<notin> set es) \<and> (\<forall>rd wr. Sock_state 0 rd wr \<notin> set es)"

text \<open>Between callbacks, the timer runs or a request is under way whose callback will restart it.\<close>

lemma ares_run_timer:
  assumes "ares_run alloc ntop cb es ds = Inr (d', s')" "no_destruction es"
  shows "(ev_active (p_calls (fst ds)) Poller_timer \<longrightarrow> ev_active (p_calls d') Poller_timer) \<and>
     (p_request_ongoing (fst ds) \<longrightarrow> p_request_ongoing d' \<or> ev_active (p_calls d') Poller_timer) \<and>
     (poller_ok (fst ds) \<longrightarrow> poller_ok d')"
  using assms
proof (induction alloc ntop cb es ds rule: ares_run.induct)
  case (2 alloc ntop cb fd rd wr es ds)
  then obtain d1 where d1: "sock_state_cb fd rd wr (fst ds) = Inr d1" "ares_run alloc ntop cb es (d1, snd ds) = Inr (d', s')"
    by auto
  have "fd \<noteq> 0" "no_destruction es" using 2(3) by (auto simp: no_destruction_def)
  then show ?case
    using 2(1) [OF d1(2)] sock_state_cb_timer [OF d1(1)] sock_state_cb_watch(1) [OF _ _ d1(1)] by auto
next
  case (3 alloc ntop cb status result es ds)
  then obtain d1 s1 where d1: "ares_cb alloc ntop cb status result ds = Inr (d1, s1)"
      "ares_run alloc ntop cb es (d1, s1) = Inr (d', s')" by auto
  have "status \<noteq> ARES_EDESTRUCTION" "no_destruction es" using 3(3) by (auto simp: no_destruction_def)
  then show ?case using 3(1) [OF d1(2)] ares_cb_timer [OF d1(1)] by auto
qed simp

lemma poller_timer_cb_timer:
  assumes "poller_timer_cb alloc ntop cb e1 e2 e3 tv ds = Inr (d', s')"
    and "no_destruction e1" "no_destruction e2" "no_destruction e3"
  shows "ev_active (p_calls d') Poller_timer \<and> (poller_ok (fst ds) \<longrightarrow> poller_ok d')"
proof -
  obtain d2 s2 where d2: "(if p_request_ongoing (fst ds) then ares_run alloc ntop cb e1 ds
        else bind_res (ares_run alloc ntop cb e2 ds) (\<lambda>(d1, s1).
             ares_run alloc ntop cb e3 (d1\<lparr>p_request_ongoing := True\<rparr>, s1))) = Inr (d2, s2)"
      "d' = (if p_request_ongoing d2 then set_timer (get_timeout tv) d2 else d2)"
    using assms(1) by (auto simp: poller_timer_cb_def)
  have "(p_request_ongoing d2 \<or> ev_active (p_calls d2) Poller_timer) \<and> (poller_ok (fst ds) \<longrightarrow> poller_ok d2)"
  proof (cases "p_request_ongoing (fst ds)")
    case True
    with d2(1) ares_run_timer [of alloc ntop cb e1 ds d2 s2] assms(2) show ?thesis by simp
  next
    case False
    with d2(1) obtain d1 s1 where d1: "ares_run alloc ntop cb e2 ds = Inr (d1, s1)"
        "ares_run alloc ntop cb e3 (d1\<lparr>p_request_ongoing := True\<rparr>, s1) = Inr (d2, s2)" by auto
    show ?thesis
      using ares_run_timer [OF d1(1) assms(3)] ares_run_timer [OF d1(2) assms(4)] by (auto simp: poller_ok_def)
  qed
  then show ?thesis by (auto simp: d2(2))
qed

section \<open>The poller as a transition system\<close>

text \<open>
  libev runs the socket callback on a ready descriptor and the timer callback when the one-shot timer
  fires, which deactivates it. While the poller lives c-ares does not report the destruction of its
  channel, and it does not use descriptor 0 (the table's mark for a free slot).
\<close>

inductive poller_step :: "'s addr_cb \<Rightarrow> dns_poller \<times> 's \<Rightarrow> dns_poller \<times> 's \<Rightarrow> bool" for cb where
  io: "poller_sock_cb alloc ntop cb es ds = Inr ds' \<Longrightarrow> no_destruction es \<Longrightarrow> poller_step cb ds ds'"
| timer: "ev_active (p_calls d) Poller_timer \<Longrightarrow>
    poller_timer_cb alloc ntop cb e1 e2 e3 tv (d\<lparr>p_calls := p_calls d @ [Ev_expired Poller_timer]\<rparr>, s) = Inr ds' \<Longrightarrow>
    no_destruction e1 \<Longrightarrow> no_destruction e2 \<Longrightarrow> no_destruction e3 \<Longrightarrow> poller_step cb (d, s) ds'"

definition poller_start :: "dns_poller \<times> 's \<Rightarrow> bool" where
  "poller_start ds \<longleftrightarrow> (\<exists>env dns interval src host family. dns_poller_init env dns interval src host family = Inr (fst ds))"

definition poller_inv :: "dns_poller \<times> 's \<Rightarrow> bool" where
  "poller_inv ds \<longleftrightarrow> ev_active (p_calls (fst ds)) Poller_timer \<and> poller_ok (fst ds)"

lemma poller_init_inv: "dns_poller_init env dns interval src host family = Inr d \<Longrightarrow> poller_inv (d, s)"
  by (auto simp: dns_poller_init_def poller_inv_def poller_ok_def slots_ok_def ev_active_def split: if_splits)

lemma poller_step_inv: "poller_step cb ds ds' \<Longrightarrow> poller_inv ds \<Longrightarrow> poller_inv ds'"
proof (induction rule: poller_step.induct)
  case (io alloc ntop es ds ds')
  then show ?case
    using ares_run_timer [of alloc ntop cb es ds "fst ds'" "snd ds'"]
    by (simp add: poller_sock_cb_def poller_inv_def)
next
  case (timer d alloc ntop e1 e2 e3 tv s ds')
  have "poller_ok (d\<lparr>p_calls := p_calls d @ [Ev_expired Poller_timer]\<rparr>)"
    using timer(6) by (simp add: poller_inv_def poller_ok_def slots_ok_def ev_active_append)
  with poller_timer_cb_timer [of alloc ntop cb e1 e2 e3 tv _ "fst ds'" "snd ds'"] timer(2-5) show ?case
    by (simp add: poller_inv_def)
qed

text \<open>
  The contract with the consumer of address lists: whatever its callback keeps, the poller's callbacks keep.
\<close>

locale addr_consumer =
  fixes cb :: "'s addr_cb" and keeps :: "'s \<Rightarrow> bool"
  assumes cb_keeps: "keeps s \<Longrightarrow> cb addrs s = Inr s' \<Longrightarrow> keeps s'"
begin

lemma ares_cb_keeps: "ares_cb alloc ntop cb status result ds = Inr ds' \<Longrightarrow> keeps (snd ds) \<Longrightarrow> keeps (snd ds')"
  using cb_keeps by (cases ds) (auto simp: ares_cb_def Let_def split: if_split_asm option.split_asm)

lemma ares_run_keeps: "ares_run alloc ntop cb es ds = Inr ds' \<Longrightarrow> keeps (snd ds) \<Longrightarrow> keeps (snd ds')"
proof (induction es arbitrary: ds)
  case (Cons e es)
  show ?case
  proof (cases e)
    case (Sock_state fd rd wr)
    with Cons obtain d1 where "ares_run alloc ntop cb es (d1, snd ds) = Inr ds'" by auto
    with Cons.IH Cons.prems(2) show ?thesis by fastforce
  next
    case (Lookup_done status result)
    with Cons.prems(1) obtain ds1 where "ares_cb alloc ntop cb status result ds = Inr ds1" "ares_run alloc ntop cb es ds1 = Inr ds'" by auto
    with Cons.IH Cons.prems(2) ares_cb_keeps show ?thesis by blast
  qed
qed simp

lemma timer_cb_keeps:
  assumes "poller_timer_cb alloc ntop cb e1 e2 e3 tv ds = Inr ds'" "keeps (snd ds)"
  shows "keeps (snd ds')"
proof (cases "p_request_ongoing (fst ds)")
  case True
  with assms ares_run_keeps show ?thesis by (fastforce simp: poller_timer_cb_def)
next
  case False
  with assms(1) obtain d1 s1 d2 s2 where "ares_run alloc ntop cb e2 ds = Inr (d1, s1)"
      "ares_run alloc ntop cb e3 (d1\<lparr>p_request_ongoing := True\<rparr>, s1) = Inr (d2, s2)" "snd ds' = s2"
    by (auto simp: poller_timer_cb_def)
  with ares_run_keeps assms(2) show ?thesis by (metis snd_conv)
qed

lemma poller_step_keeps: "poller_step cb ds ds' \<Longrightarrow> keeps (snd ds) \<Longrightarrow> keeps (snd ds')"
  by (induction rule: poller_step.induct) (auto simp: poller_sock_cb_def dest: ares_run_keeps timer_cb_keeps)

lemma cleanup_keeps: "dns_poller_cleanup alloc ntop cb es ds = Inr ds' \<Longrightarrow> keeps (snd ds) \<Longrightarrow> keeps (snd ds')"
  by (auto simp: dns_poller_cleanup_def dest: ares_run_keeps)

end

interpretation poller: invariant_system poller_start "poller_step cb" poller_inv for cb
proof unfold_locales
  show "poller_inv x" if "poller_start x" for x
    using that poller_init_inv [of _ _ _ _ _ _ "fst x" "snd x"] by (auto simp: poller_start_def)
qed (rule poller_step_inv)

section \<open>Properties\<close>

text \<open>
  C11. Polling never stops: in every state that the poller reaches between callbacks its timer is running, so
  that the next lookup or timeout check will happen, whatever c-ares reported; and its table of watchers is
  consistent: no socket has two slots, and libev watches exactly the slots in use.
\<close>

theorem poller_timer_always_runs:
  assumes "reach poller_start (poller_step cb) (d, s)"
  shows "ev_active (p_calls d) Poller_timer \<and> slots_ok Poller_io (p_io_events d, p_calls d)"
  using poller.reach_inv [OF assms] by (simp add: poller_inv_def poller_ok_def)

definition example_poller :: dns_poller where
  "example_poller = \<lparr>p_hostname = ''dns.google'', p_family = AF_UNSPEC, p_local_ip = Some (Local_ip4 [192, 0, 2, 1]), p_polling_interval = 120,
     p_request_ongoing = False, p_io_events = replicate 2 \<lparr>io_fd = 0, io_read = False, io_write = False\<rparr>,
     p_calls = [Ev_set Poller_timer 0 0, Ev_start Poller_timer]\<rparr>"

definition example_polling :: dns_poller where
  "example_polling = example_poller\<lparr>p_request_ongoing := True,
     p_io_events := [\<lparr>io_fd = 7, io_read = True, io_write = False\<rparr>, \<lparr>io_fd = 0, io_read = False, io_write = False\<rparr>],
     p_calls := [Ev_set Poller_timer 0 0, Ev_start Poller_timer, Ev_expired Poller_timer, Ev_start (Poller_io 0),
       Ev_stop Poller_timer, Ev_set Poller_timer (7 / 10) 0, Ev_start Poller_timer]\<rparr>"

definition example_poller_env :: poller_env where
  "example_poller_env = \<lparr>pe_library_init = True, pe_init_options = True, pe_set_servers = True, pe_alloc = True,
     pe_pton4 = \<lambda>_. Some [192, 0, 2, 1], pe_pton6 = \<lambda>_. None\<rparr>"

lemma example_poller_init:
  "dns_poller_init example_poller_env ''8.8.8.8,1.1.1.1'' 120 (Some ''192.0.2.1'') ''dns.google'' AF_UNSPEC = Inr example_poller"
  by (simp add: dns_poller_init_def example_poller_env_def set_bootstrap_source_addr_def example_poller_def AF_UNSPEC_def count_nameservers_def numeral_2_eq_2)

lemma example_poller_step: "poller_step cb (example_poller, s) (example_polling, s)"
  by (rule poller_step.timer [where ?e1.0 = "[]" and ?e2.0 = "[]" and ?e3.0 = "[Sock_state 7 True False]" and
        tv = "(0, 700000)" and alloc = True and ntop = "\<lambda>_. []"])
    (simp_all add: example_poller_def example_polling_def poller_timer_cb_def sock_state_cb_def release_slot_def
      reserve_slot_def set_timer_def get_timeout_def Let_def no_destruction_def ev_active_def numeral_2_eq_2)

lemma example_polling_reached: "reach poller_start (poller_step cb) (example_polling, ())"
proof -
  have "poller_start (example_poller, ())"
    unfolding poller_start_def fst_conv using example_poller_init by blast
  then have "reach poller_start (poller_step cb) (example_poller, ())" by (rule reach_init)
  then show ?thesis using example_poller_step by (rule reach_step)
qed

theorem poller_timer_always_runs_witness:
  "ev_active (p_calls example_polling) Poller_timer \<and> slots_ok Poller_io (p_io_events example_polling, p_calls example_polling)"
  by (rule poller_timer_always_runs [OF example_polling_reached [of "\<lambda>_ _. Inr ()"]])

text \<open>
  C25. The address list is the comma-separated texts of the longest prefix of the IPv4 and IPv6 addresses that
  fits into 1022 characters: no address is ever cut, and the list is null exactly when not even the first
  address fits or there is none.
\<close>

theorem addr_listing_longest_prefix:
  "\<exists>us rest. map ntop (filter (\<lambda>n. fst n = AF_INET \<or> fst n = AF_INET6) nodes) = us @ rest \<and>
     get_addr_listing True ntop nodes = Inr (if us = [] then None else Some (comma_join us)) \<and>
     length (comma_join us) \<le> 1022 \<and>
     (rest = [] \<or> 1022 < length (comma_join (us @ [hd rest])))"
proof -
  obtain us rest where u: "map ntop (filter handled nodes) = us @ rest"
    "get_addr_listing True ntop nodes = Inr (if us = [] then None else Some (comma_join us))"
    "us = [] \<or> length (comma_join us) \<le> 1022"
    "rest = [] \<or> 1023 \<le> length (with_commas us) + length (hd rest)"
    by (rule addr_listing_prefix)
  moreover have "length (comma_join (us @ [t])) = length (with_commas us) + length t" for t
    using comma_join_length [of "us @ [t]"] by simp
  moreover have "handled = (\<lambda>n. fst n = AF_INET \<or> fst n = AF_INET6)" by (simp add: handled_def fun_eq_iff)
  ultimately have "map ntop (filter (\<lambda>n. fst n = AF_INET \<or> fst n = AF_INET6) nodes) = us @ rest"
      "length (comma_join us) \<le> 1022" "rest = [] \<or> 1022 < length (comma_join (us @ [hd rest]))"
    by auto
  with u(2) show ?thesis by blast
qed

text \<open>
  The comment beside the size of the list promises room for 64 IPv4 addresses. Of 64 addresses of full
  length (15 characters) only 63 are listed.
\<close>

theorem addr_listing_63_of_64:
  assumes "length nodes = 64" "\<forall>n \<in> set nodes. fst n = AF_INET \<and> length (ntop n) = 15"
  shows "get_addr_listing True ntop nodes = Inr (Some (comma_join (map ntop (take 63 nodes))))"
proof -
  have all: "filter handled nodes = nodes" using assms(2) by (auto simp: handled_def filter_id_conv)
  obtain us rest where u: "map ntop nodes = us @ rest"
    "get_addr_listing True ntop nodes = Inr (if us = [] then None else Some (comma_join us))"
    "us = [] \<or> length (comma_join us) \<le> 1022"
    "rest = [] \<or> 1023 \<le> length (with_commas us) + length (hd rest)"
    using addr_listing_prefix [of ntop nodes] unfolding all by blast
  have len15: "\<forall>t \<in> set (us @ rest). length t = 15" using assms(2) unfolding u(1) [symmetric] by auto
  have wc: "length (with_commas ts) = 16 * length ts" if "\<forall>t \<in> set ts. length t = 15" for ts
    using that by (induction ts) (simp_all add: with_commas_def)
  have us: "length (with_commas us) = 16 * length us" using wc len15 by simp
  have total: "length us + length rest = 64" using arg_cong [OF u(1), of length] assms(1) by simp
  have "length us \<le> 63"
    using u(3) us comma_join_length [of us] by (cases "us = []") auto
  moreover have "63 \<le> length us"
  proof (cases rest)
    case Nil
    with total show ?thesis by simp
  next
    case (Cons t ts)
    with u(4) us len15 show ?thesis by simp
  qed
  ultimately have "length us = 63" by simp
  then have "us = map ntop (take 63 nodes)" using arg_cong [OF u(1), of "take 63"] by (simp add: take_map)
  with u(2) \<open>length us = 63\<close> show ?thesis by (cases "us = []") auto
qed

theorem addr_listing_63_of_64_witness:
  "get_addr_listing True (\<lambda>_. ''203.113.100.100'') (replicate 64 (AF_INET, [203, 113, 100, 100])) =
     Inr (Some (comma_join (replicate 63 ''203.113.100.100'')))"
  using addr_listing_63_of_64 [of "replicate 64 (AF_INET, [203, 113, 100, 100])" "\<lambda>_. ''203.113.100.100''"]
  by simp

text \<open>
  C26. The poller follows the sockets of c-ares: after any sequence of socket-state callbacks that does not run
  out of slots, the active watchers of libev are, for each socket, one for exactly the events that c-ares
  asked for last, or none if it asked for none.
\<close>

theorem poller_follows_sockets:
  assumes "poller_ok d" "\<forall>(fd, ev) \<in> set es. fd \<noteq> 0"
    and "poller_sockets.watch_all es d = Some d'"
  shows "libev_watches Poller_io (p_io_events d') (p_calls d') fd =
     set_option (fold (\<lambda>(fd, ev) t. t(fd := ev)) es (watched (p_io_events d)) fd)"
  using poller_sockets.watch_all_table [OF assms] libev_watches_table by (metis poller_ok_def)

theorem poller_follows_sockets_witness:
  "\<exists>d'. poller_sockets.watch_all [(7, Some (True, False)), (9, Some (False, True)), (7, None)] example_poller = Some d' \<and>
     libev_watches Poller_io (p_io_events d') (p_calls d') 9 = {(False, True)} \<and>
     libev_watches Poller_io (p_io_events d') (p_calls d') 7 = {}"
proof -
  have ok: "poller_ok example_poller" using poller_init_inv [OF example_poller_init] by (simp add: poller_inv_def)
  obtain d' where d': "poller_sockets.watch_all [(7, Some (True, False)), (9, Some (False, True)), (7, None)] example_poller = Some d'"
    by (simp add: poller_watch_def sock_state_cb_def release_slot_def reserve_slot_def example_poller_def numeral_2_eq_2)
  with poller_follows_sockets [OF ok _ d', of 7] poller_follows_sockets [OF ok _ d', of 9] show ?thesis by simp
qed

end
