(* ===== verification/Addr_List.thy ===== *)
theory Addr_List
  imports Prelude "HOL-Library.Sublist"
begin

text \<open>
  The comparison of comma-separated address lists, \<open>addr_list_reduced\<close> of src/src/main.c, with which the
  bootstrap callback decides whether the addresses in use are still valid. The code searches the new text
  for each old address; the theorems say what this means for the entries of the lists.
\<close>

section \<open>Comparing two lists\<close>

text \<open>\<open>strstr\<close>: the position of the first occurrence.\<close>

definition strstr :: "string \<Rightarrow> string \<Rightarrow> nat option" where
  "strstr hay needle = find (\<lambda>k. take (length needle) (drop k hay) = needle) [0..<Suc (length hay)]"

function reduced_loop :: "string \<Rightarrow> string \<Rightarrow> bool" where
  "reduced_loop full_list pos =
     (if pos = [] then False
      else
        (let current = takeWhile (\<lambda>c. c \<noteq> CHR '','') pos; ip_len = length current
         in if ip_len \<ge> 50 then True
            else (case strstr full_list current of
                    None \<Rightarrow> True
                  | Some k \<Rightarrow>
                      if \<not> (k = 0 \<or> full_list ! (k - 1) = CHR '','') \<or>
                         \<not> (k + ip_len = length full_list \<or> full_list ! (k + ip_len) = CHR '','')
                      then True
                      else reduced_loop full_list (drop (ip_len + 1) pos))))"
  by pat_completeness auto
termination
  by (relation "measure (\<lambda>(full_list, pos). length pos)") auto

declare reduced_loop.simps [simp del]

definition addr_list_reduced :: "string \<Rightarrow> string \<Rightarrow> bool" where
  "addr_list_reduced full_list list = reduced_loop full_list list"

section \<open>Entries\<close>

text \<open>The addresses of a list: the texts between commas.\<close>

fun entries :: "string \<Rightarrow> string list" where
  "entries [] = [[]]"
| "entries (c # cs) =
     (case entries cs of [] \<Rightarrow> [[c]] | f # fs \<Rightarrow> if c = CHR '','' then [] # f # fs else (c # f) # fs)"

lemma entries_nonempty [simp]: "entries s \<noteq> []"
  by (cases s) (auto split: list.split)

lemma entries_no_comma: "CHR '','' \<notin> set s \<Longrightarrow> entries s = [s]"
  by (induction s) auto

lemma entries_append: "entries (a @ CHR '','' # b) = entries a @ entries b"
proof (induction a)
  case Nil
  then show ?case by (cases "entries b") (use entries_nonempty [of b] in auto)
next
  case (Cons x a)
  then show ?case by (cases "entries a") (use entries_nonempty [of a] in auto)
qed

lemma entries_takeWhile:
  "entries s = takeWhile (\<lambda>c. c \<noteq> CHR '','') s #
     (if CHR '','' \<in> set s then entries (drop (length (takeWhile (\<lambda>c. c \<noteq> CHR '','') s) + 1) s) else [])"
proof (induction s)
  case (Cons c s)
  have "\<exists>f fs. entries s = f # fs" by (metis entries_nonempty neq_Nil_conv)
  with Cons show ?case by (auto split: if_split_asm)
qed simp

lemma strstr_Some_iff:
  "strstr hay needle = Some k \<longleftrightarrow> k \<le> length hay \<and> take (length needle) (drop k hay) = needle \<and>
   (\<forall>j < k. take (length needle) (drop j hay) \<noteq> needle)"
proof -
  have "(\<exists>i < Suc n. P ([0..<Suc n] ! i) \<and> k = [0..<Suc n] ! i \<and> (\<forall>j < i. \<not> P ([0..<Suc n] ! j))) \<longleftrightarrow>
      k \<le> n \<and> P k \<and> (\<forall>j < k. \<not> P j)" for n and P :: "nat \<Rightarrow> bool"
    by (auto simp del: upt_Suc simp: less_Suc_eq_le cong: conj_cong intro!: exI [of _ k])
  then show ?thesis unfolding strstr_def find_Some_iff by simp
qed

lemma strstr_split:
  assumes "strstr hay needle = Some k"
  shows "hay = take k hay @ needle @ drop (k + length needle) hay" "k + length needle \<le> length hay"
proof -
  have k: "k \<le> length hay" "take (length needle) (drop k hay) = needle" using assms by (simp_all add: strstr_Some_iff)
  then have "drop k hay = needle @ drop (length needle) (drop k hay)" by (metis append_take_drop_id)
  then show "hay = take k hay @ needle @ drop (k + length needle) hay" by (metis append_take_drop_id drop_drop add.commute)
  from k(2) have "length needle \<le> length (drop k hay)" by (metis length_take min.absorb_iff2 min.commute)
  with k(1) show "k + length needle \<le> length hay" by simp
qed

text \<open>
  The test of one address: its first occurrence has the ends of the list or commas around it. It succeeds
  exactly if the first entry that contains the text of the address is that address.
\<close>

definition found_at :: "string \<Rightarrow> nat \<Rightarrow> nat \<Rightarrow> bool" where
  "found_at full n k \<longleftrightarrow> (k = 0 \<or> full ! (k - 1) = CHR '','') \<and> (k + n = length full \<or> full ! (k + n) = CHR '','')"

definition found :: "string \<Rightarrow> string \<Rightarrow> bool" where
  "found full f = (case strstr full f of None \<Rightarrow> False | Some k \<Rightarrow> found_at full (length f) k)"

lemma strstr_None: "strstr hay needle = None \<longleftrightarrow> (\<forall>k \<le> length hay. take (length needle) (drop k hay) \<noteq> needle)"
proof -
  have "x \<in> set [0..<Suc n] \<longleftrightarrow> x \<le> n" for n x by auto
  then show ?thesis unfolding strstr_def find_None_iff by blast
qed

lemma strstr_None_iff: "strstr hay needle = None \<longleftrightarrow> \<not> sublist needle hay"
proof
  assume none: "strstr hay needle = None"
  show "\<not> sublist needle hay"
  proof
    assume "sublist needle hay"
    then obtain ps ss where "hay = ps @ needle @ ss" by (auto simp: sublist_def)
    then have "length ps \<le> length hay" "take (length needle) (drop (length ps) hay) = needle" by simp_all
    with none show False unfolding strstr_None by blast
  qed
next
  assume "\<not> sublist needle hay"
  then have "strstr hay needle \<noteq> Some k" for k using strstr_split(1) [of hay needle k] unfolding sublist_def by blast
  then show "strstr hay needle = None" by (metis not_Some_eq)
qed

lemma strstr_entries:
  assumes "CHR '','' \<notin> set f" "f \<noteq> []"
  shows "strstr (g @ CHR '','' # rest) f =
     (case strstr g f of Some k \<Rightarrow> Some k | None \<Rightarrow> map_option (\<lambda>k. k + length g + 1) (strstr rest f))"
proof -
  let ?full = "g @ CHR '','' # rest"
  have inside: "take (length f) (drop k ?full) = f \<longleftrightarrow> take (length f) (drop k g) = f" if "k \<le> length g" for k
  proof (cases "length f \<le> length (drop k g)")
    case False
    have "take (length f) (drop k ?full) = drop k g @ CHR '','' # take (length f - length (drop k g) - 1) rest"
      using that False by (simp add: take_Cons')
    moreover have "length (take (length f) (drop k g)) \<noteq> length f" using False by simp
    ultimately show ?thesis using assms(1) by (metis in_set_conv_decomp)
  qed (use that in simp)
  have outside: "take (length f) (drop (k + length g + 1) ?full) = take (length f) (drop k rest)" for k by simp
  show ?thesis
  proof (cases "strstr g f")
    case (Some k)
    then have "k \<le> length g" "take (length f) (drop k ?full) = f" "\<forall>j < k. take (length f) (drop j ?full) \<noteq> f"
      using inside unfolding strstr_Some_iff by (simp, blast, metis le_trans less_imp_le_nat)
    then have "strstr ?full f = Some k" by (simp only: strstr_Some_iff) simp
    with Some show ?thesis by simp
  next
    case None
    then have no: "take (length f) (drop k ?full) \<noteq> f" if "k \<le> length g" for k
      using inside [OF that] that unfolding strstr_None by blast
    show ?thesis
    proof (cases "strstr rest f")
      case r: (Some k)
      have "take (length f) (drop j ?full) \<noteq> f" if "j < k + length g + 1" for j
      proof (cases "j \<le> length g")
        case False
        then show ?thesis using r outside [of "j - length g - 1"] that by (simp add: strstr_Some_iff)
      qed (rule no)
      moreover have "k + length g + 1 \<le> length ?full" "take (length f) (drop (k + length g + 1) ?full) = f"
        using r unfolding outside strstr_Some_iff by simp_all
      ultimately have "strstr ?full f = Some (k + length g + 1)" unfolding strstr_Some_iff by blast
      with None r show ?thesis by simp
    next
      case r: None
      have "take (length f) (drop j ?full) \<noteq> f" if "j \<le> length ?full" for j
      proof (cases "j \<le> length g")
        case False
        then show ?thesis
          using r outside [of "j - length g - 1"] that by (simp add: strstr_None)
      qed (rule no)
      then have "strstr ?full f = None" unfolding strstr_None by blast
      with None r show ?thesis by simp
    qed
  qed
qed

lemma found_at_entry:
  assumes "CHR '','' \<notin> set g" "strstr g f = Some k" "f \<noteq> []" "rest = [] \<or> hd rest = CHR '',''"
  shows "found_at (g @ rest) (length f) k \<longleftrightarrow> g = f"
proof -
  have k: "k + length f \<le> length g" using strstr_split(2) [OF assms(2)] .
  have no: "(g @ rest) ! j \<noteq> CHR '',''" if "j < length g" for j
    using assms(1) nth_mem [OF that] that by (metis nth_append)
  have left: "k = 0 \<or> (g @ rest) ! (k - 1) = CHR '','' \<longleftrightarrow> k = 0"
    using k no [of "k - 1"] assms(3) by (cases f) auto
  have "k + length f = length (g @ rest) \<or> (g @ rest) ! (k + length f) = CHR '','' \<longleftrightarrow> k + length f = length g"
  proof (cases "k + length f = length g")
    case True
    with assms(4) show ?thesis by (cases rest) (auto simp: nth_append)
  next
    case False
    with k no [of "k + length f"] show ?thesis by simp
  qed
  with left have "found_at (g @ rest) (length f) k \<longleftrightarrow> k = 0 \<and> length f = length g"
    unfolding found_at_def by (metis add_0)
  moreover have "g = f" if "k = 0" "length f = length g"
    using assms(2) that unfolding strstr_Some_iff by simp
  moreover have "k = 0" if "g = f"
    using k that by simp
  ultimately show ?thesis by blast
qed

lemma found_at_later:
  "found_at (g @ CHR '','' # rest) n (Suc (k + length g)) \<longleftrightarrow> found_at rest n k"
  by (auto simp: found_at_def nth_append nth_Cons' add.commute)

lemma found_iff:
  assumes "CHR '','' \<notin> set f" "f \<noteq> []"
  shows "found full f \<longleftrightarrow> find (sublist f) (entries full) = Some f"
proof (induction "length full" arbitrary: full rule: less_induct)
  case less
  show ?case
  proof (cases "CHR '','' \<in> set full")
    case False
    with assms(2) found_at_entry [OF False, of f _ "[]"] strstr_None_iff [of full f] show ?thesis
      by (cases "strstr full f") (auto simp: found_def entries_no_comma)
  next
    case True
    then obtain g rest where full: "full = g @ CHR '','' # rest" "CHR '','' \<notin> set g" by (metis split_list_first)
    then have IH: "found rest f \<longleftrightarrow> find (sublist f) (entries rest) = Some f" using less by simp
    have entries: "entries full = g # entries rest" using full by (simp add: entries_append entries_no_comma)
    show ?thesis
    proof (cases "strstr g f")
      case None
      then show ?thesis
        using IH strstr_None_iff [of g f] strstr_entries [OF assms, of g rest] unfolding full(1)
        by (cases "strstr rest f") (auto simp: found_def found_at_later entries [unfolded full(1)])
    next
      case (Some k)
      then show ?thesis
        using strstr_None_iff [of g f] strstr_entries [OF assms, of g rest]
          found_at_entry [OF full(2) Some assms(2), of "CHR '','' # rest"] unfolding full(1)
        by (auto simp: found_def entries [unfolded full(1)])
    qed
  qed
qed

lemma entries_have_no_comma: "f \<in> set (entries s) \<Longrightarrow> CHR '','' \<notin> set f"
proof (induction s arbitrary: f)
  case (Cons c s)
  then show ?case by (cases "entries s") (auto split: if_split_asm)
qed simp

text \<open>An address that the comparison accepts.\<close>

definition still_listed :: "string \<Rightarrow> string \<Rightarrow> bool" where
  "still_listed new f \<longleftrightarrow> length f < 50 \<and> find (sublist f) (entries new) = Some f"

lemma reduced_loop_step:
  "pos \<noteq> [] \<Longrightarrow> reduced_loop full pos \<longleftrightarrow>
     (let f = takeWhile (\<lambda>c. c \<noteq> CHR '','') pos
      in \<not> (length f < 50 \<and> found full f) \<or> reduced_loop full (drop (length f + 1) pos))"
  by (subst reduced_loop.simps) (auto simp: Let_def found_def found_at_def split: option.split)

lemma reduced_loopI:
  "f \<in> set (entries pos) \<Longrightarrow> f \<noteq> [] \<Longrightarrow> \<not> still_listed full f \<Longrightarrow> reduced_loop full pos"
proof (induction "length pos" arbitrary: pos rule: less_induct)
  case less
  let ?g = "takeWhile (\<lambda>c. c \<noteq> CHR '','') pos"
  from less.prems(1,2) have pos: "pos \<noteq> []" by auto
  from less.prems(1) entries_takeWhile [of pos] consider "f = ?g" | "f \<in> set (entries (drop (length ?g + 1) pos))"
    by (auto split: if_split_asm)
  then show ?case
  proof cases
    case 1
    with found_iff [OF entries_have_no_comma [OF less.prems(1)] less.prems(2)] less.prems(3) pos show ?thesis
      by (auto simp: reduced_loop_step still_listed_def Let_def)
  next
    case 2
    with less.hyps [OF _ 2 less.prems(2,3)] pos show ?thesis by (simp add: reduced_loop_step Let_def)
  qed
qed

lemma reduced_loopD:
  "reduced_loop full pos \<Longrightarrow> [] \<notin> set (entries pos) \<Longrightarrow> \<exists>f \<in> set (entries pos). \<not> still_listed full f"
proof (induction "length pos" arbitrary: pos rule: less_induct)
  case less
  let ?g = "takeWhile (\<lambda>c. c \<noteq> CHR '','') pos" and ?rest = "drop (length (takeWhile (\<lambda>c. c \<noteq> CHR '','') pos) + 1) pos"
  have pos: "pos \<noteq> []" using less.prems(2) by auto
  have g: "?g \<in> set (entries pos)" by (subst entries_takeWhile) simp
  show ?case
  proof (cases "still_listed full ?g")
    case True
    have "?g \<noteq> []" using g less.prems(2) by metis
    with True found_iff [OF entries_have_no_comma [OF g]] have "length ?g < 50 \<and> found full ?g" by (simp add: still_listed_def)
    with less.prems(1) pos have red: "reduced_loop full ?rest" by (simp add: reduced_loop_step Let_def)
    then have "?rest \<noteq> []" by (auto simp: reduced_loop.simps [of _ "[]"])
    then have "\<not> length pos \<le> length ?g + 1" by auto
    then have "?g \<noteq> pos" by (metis le_add1)
    then have "CHR '','' \<in> set pos" using takeWhile_eq_all_conv [of "\<lambda>c. c \<noteq> CHR '',''" pos] by auto
    then have fs: "entries pos = ?g # entries ?rest" by (subst entries_takeWhile) simp
    then have "[] \<notin> set (entries ?rest)" using less.prems(2) by (metis list.set_intros(2))
    moreover have "length ?rest < length pos" using pos by simp
    ultimately obtain f where "f \<in> set (entries ?rest)" "\<not> still_listed full f" using less.hyps [OF _ red] by blast
    with fs show ?thesis by (metis list.set_intros(2))
  qed (use g in blast)
qed

lemma still_listed_entry: "still_listed new f \<Longrightarrow> f \<in> set (entries new)"
  by (auto simp: still_listed_def find_Some_iff)

lemma reduced_loop_sound:
  "\<not> reduced_loop full_list pos \<Longrightarrow> f \<in> set (entries pos) \<Longrightarrow> f \<noteq> [] \<Longrightarrow> f \<in> set (entries full_list)"
  using reduced_loopI still_listed_entry by blast

lemma addr_list_reduced_eq:
  assumes "[] \<notin> set (entries list)"
  shows "addr_list_reduced full_list list \<longleftrightarrow> (\<exists>f \<in> set (entries list). \<not> still_listed full_list f)"
  using reduced_loopI [of _ list full_list] reduced_loopD [of full_list list] assms by (auto simp: addr_list_reduced_def)

text \<open>
  C30. What the comparison of address lists computes, in terms of their entries: it reports a loss exactly if
  some old address has 50 characters or more, or is not the first entry of the new list among those that
  contain its text. The loop over pointers into both texts is equivalent to this.
\<close>

theorem addr_list_reduced_by_entries:
  assumes "[] \<notin> set (entries list)"
  shows "addr_list_reduced full_list list \<longleftrightarrow>
     (\<exists>f \<in> set (entries list). 50 \<le> length f \<or> find (sublist f) (entries full_list) \<noteq> Some f)"
  using addr_list_reduced_eq [OF assms] by (auto simp: still_listed_def not_less)

theorem addr_list_reduced_by_entries_witness:
  "\<not> addr_list_reduced ''8.8.4.4,8.8.8.8'' ''8.8.8.8,8.8.4.4'' \<and> addr_list_reduced ''1.1.1.10,1.1.1.1'' ''1.1.1.1''"
proof -
  have a: "[] \<notin> set (entries ''8.8.8.8,8.8.4.4'')" "[] \<notin> set (entries ''1.1.1.1'')" by code_simp+
  have b: "\<not> (\<exists>f \<in> set (entries ''8.8.8.8,8.8.4.4''). 50 \<le> length f \<or> find (sublist f) (entries ''8.8.4.4,8.8.8.8'') \<noteq> Some f)"
      "\<exists>f \<in> set (entries ''1.1.1.1''). 50 \<le> length f \<or> find (sublist f) (entries ''1.1.1.10,1.1.1.1'') \<noteq> Some f"
    by code_simp+
  with addr_list_reduced_by_entries [OF a(1)] addr_list_reduced_by_entries [OF a(2)] show ?thesis by blast
qed

text \<open>
  C16. The comparison of address lists never overlooks a change: when it reports that nothing was lost, every
  address of the old list is, as a whole entry, an address of the new one.
\<close>

theorem addr_list_reduced_sound:
  assumes "\<not> addr_list_reduced full_list list" "f \<in> set (entries list)" "f \<noteq> []"
  shows "f \<in> set (entries full_list)"
  using reduced_loop_sound assms by (simp add: addr_list_reduced_def)

theorem addr_list_reduced_sound_witness:
  "''1.1.1.1'' \<in> set (entries ''8.8.8.8,1.1.1.1,8.8.4.4'')"
proof (rule addr_list_reduced_sound)
  have "strstr ''8.8.8.8,1.1.1.1,8.8.4.4'' ''1.1.1.1'' = Some 8" by code_simp
  then show "\<not> addr_list_reduced ''8.8.8.8,1.1.1.1,8.8.4.4'' ''1.1.1.1''"
    by (simp add: addr_list_reduced_def reduced_loop.simps [of _ "CHR ''1'' # _"] reduced_loop.simps [of _ "[]"])
  show "''1.1.1.1'' \<in> set (entries ''1.1.1.1'')" by code_simp
qed simp

lemma find_append: "find P (xs @ ys) = (case find P xs of None \<Rightarrow> find P ys | Some x \<Rightarrow> Some x)"
  by (induction xs) auto

text \<open>
  C32. The comparison can report a loss where there is none: it looks only at the first place where the text of an
  address occurs. Whenever a different entry that contains this text comes before the address in the new
  list, wherever in the entry and whatever else is in the lists, the address is reported as lost.
\<close>

theorem addr_list_first_match_only:
  assumes "entries new = before @ g # after" "f \<in> set (entries old)" "f \<noteq> []"
    and "sublist f g" "g \<noteq> f" "f \<notin> set before"
  shows "addr_list_reduced new old"
proof -
  have "find (sublist f) (entries new) \<noteq> Some f"
  proof (cases "find (sublist f) before")
    case None
    then show ?thesis using assms(1,4,5) by (simp add: find_append)
  next
    case (Some h)
    then have "h \<in> set before" by (auto simp: find_Some_iff)
    then show ?thesis using assms(1,6) Some by (auto simp: find_append)
  qed
  then show ?thesis
    using reduced_loopI [OF assms(2,3)] by (simp add: addr_list_reduced_def still_listed_def)
qed

theorem addr_list_first_match_only_witness:
  "addr_list_reduced ''8.8.8.8,1.1.1.10,1.1.1.1'' ''8.8.8.8,1.1.1.1'' \<and>
   set (entries ''8.8.8.8,1.1.1.1'') \<subseteq> set (entries ''8.8.8.8,1.1.1.10,1.1.1.1'')"
proof
  show "addr_list_reduced ''8.8.8.8,1.1.1.10,1.1.1.1'' ''8.8.8.8,1.1.1.1''"
  proof (rule addr_list_first_match_only)
    show "entries ''8.8.8.8,1.1.1.10,1.1.1.1'' = [''8.8.8.8''] @ ''1.1.1.10'' # [''1.1.1.1'']" by code_simp
    show "''1.1.1.1'' \<in> set (entries ''8.8.8.8,1.1.1.1'')" by code_simp
    show "sublist ''1.1.1.1'' ''1.1.1.10''" using sublist_append_rightI [of "''1.1.1.1''" "''0''"] by simp
  qed simp_all
  show "set (entries ''8.8.8.8,1.1.1.1'') \<subseteq> set (entries ''8.8.8.8,1.1.1.10,1.1.1.1'')" by code_simp
qed

end
