(* ===== verification/Https_Client.thy ===== *)
theory Https_Client
  imports Options Stat Io_Slots
begin

text \<open>
  The HTTPS client, src/src/https_client.c, which carries each DNS request to the resolver in a POST of
  its own. libcurl is outside: easy handles are numbers, the results of its calls are arguments, and the
  callbacks that a call into it makes are a sequence of events that the model runs in order. The singly
  linked list of transfers is a list whose head is \<open>client->fetches\<close>; removing a transfer takes its
  position, which is what the pointer to its predecessor gives. Log output is left out where it has no
  other effect; whether debug logging is on is an argument.
\<close>

section \<open>Data\<close>

definition HTTPS_SOCKET_LIMIT :: nat where "HTTPS_SOCKET_LIMIT = 12"
definition HTTPS_CONNECTION_LIMIT :: int where "HTTPS_CONNECTION_LIMIT = 8"
definition DOH_MAX_RESPONSE_SIZE :: nat where "DOH_MAX_RESPONSE_SIZE = 65535"
definition DOH_CONTENT_TYPE :: string where "DOH_CONTENT_TYPE = ''application/dns-message''"

text \<open>A transfer: the callback's argument is of an arbitrary type.\<close>

record 'd fetch_ctx =
  f_curl :: nat
  f_id :: u16
  f_cb_data :: 'd
  f_buf :: "bytes option"
  f_buflen :: u64

record 'd https_client =
  hc_fetches :: "'d fetch_ctx list"
  hc_header_list :: "string list option"
  hc_io_events :: "io_slot list"
  hc_connections :: int
  hc_opt :: options
  hc_stat :: "stat option"
  hc_calls :: "call list"

definition hc_emit :: "call list \<Rightarrow> 'd https_client \<Rightarrow> 'd https_client" where
  "hc_emit cs c = c\<lparr>hc_calls := hc_calls c @ cs\<rparr>"

text \<open>
  The response callback: its data, the response (\<open>None\<close> for a null buffer), and the state it works on.
  The statistics are shared between the client and the callback through a pointer, so the callback gets
  them from the client's state and gives them back.
\<close>

type_synonym ('d, 's) resp_cb = "'d \<Rightarrow> bytes option \<Rightarrow> stat option \<times> 's \<Rightarrow> (stat option \<times> 's) res"

text \<open>The values of libcurl's public constants that the code compares with.\<close>

definition CURLE_OK :: int where "CURLE_OK = 0"
definition CURLE_OPERATION_TIMEDOUT :: int where "CURLE_OPERATION_TIMEDOUT = 28"
definition CURL_HTTP_VERSION_NONE :: int where "CURL_HTTP_VERSION_NONE = 0"
definition CURL_HTTP_VERSION_1_0 :: int where "CURL_HTTP_VERSION_1_0 = 1"
definition CURL_HTTP_VERSION_1_1 :: int where "CURL_HTTP_VERSION_1_1 = 2"
definition CURL_HTTP_VERSION_2_0 :: int where "CURL_HTTP_VERSION_2_0 = 3"
definition CURL_HTTP_VERSION_2TLS :: int where "CURL_HTTP_VERSION_2TLS = 4"
definition CURL_HTTP_VERSION_3 :: int where "CURL_HTTP_VERSION_3 = 30"

lemmas curl_consts = CURLE_OK_def CURLE_OPERATION_TIMEDOUT_def CURL_HTTP_VERSION_NONE_def CURL_HTTP_VERSION_1_0_def
  CURL_HTTP_VERSION_1_1_def CURL_HTTP_VERSION_2_0_def CURL_HTTP_VERSION_2TLS_def CURL_HTTP_VERSION_3_def

datatype curlm_code = CURLM_OK | CURLM_ABORTED_BY_CALLBACK | CURLM_error nat

section \<open>Callbacks of a transfer\<close>

text \<open>\<open>write_buffer\<close>: the number of bytes taken, and the transfer afterwards. \<open>data\<close> is the memory at \<open>buf\<close>.\<close>

definition write_buffer :: "mem_env \<Rightarrow> bytes \<Rightarrow> u64 \<Rightarrow> u64 \<Rightarrow> 'd fetch_ctx \<Rightarrow> (u64 \<times> 'd fetch_ctx) res" where
  "write_buffer me data sz nmemb ctx =
     (let write_size = sz * nmemb;
          new_size = f_buflen ctx + write_size
      in if unat new_size > DOH_MAX_RESPONSE_SIZE then Inr (0, ctx)
         else if \<not> malloc_ok me (unat (new_size + 1)) then Inr (0, ctx)
         else if length data < unat write_size then Inl Undef
         else
           (let old = take (unat (f_buflen ctx)) (case f_buf ctx of None \<Rightarrow> [] | Some b \<Rightarrow> b)
            in Inr (write_size,
                    ctx\<lparr>f_buf := Some (old @ take (unat write_size) data @ [0]), f_buflen := new_size\<rparr>)))"

text \<open>
  \<open>sock\<close> is what \<open>socket\<close> returns; \<open>ipcxn\<close> says whether the purpose is CURLSOCKTYPE_IPCXN. The result is
  the socket or -1 (CURL_SOCKET_BAD).
\<close>

definition opensocket_callback :: "int \<Rightarrow> bool \<Rightarrow> family \<Rightarrow> 'd https_client \<Rightarrow> int \<times> 'd https_client" where
  "opensocket_callback sock ipcxn fam c =
     (if hc_connections c \<ge> int HTTPS_SOCKET_LIMIT then (-1, c)
      else if sock = -1 then (-1, c)
      else
        (let c1 = c\<lparr>hc_connections := hc_connections c + 1, hc_stat := map_option stat_connection_opened (hc_stat c)\<rparr>
         in if \<not> ipcxn then (sock, c1)
            else if fam = AF_INET \<or> fam = AF_INET6 then (sock, hc_emit [Set_tos sock fam (dscp (hc_opt c1))] c1)
            else (sock, c1)))"

definition closesocket_callback :: "bool \<Rightarrow> int \<Rightarrow> 'd https_client \<Rightarrow> int \<times> 'd https_client" where
  "closesocket_callback close_ok sock c =
     (let c0 = hc_emit [Close sock] c
      in if \<not> close_ok then (1, c0)
         else
           (let c1 = c0\<lparr>hc_connections := hc_connections c0 - 1\<rparr>;
                c2 = (if hc_connections c1 \<le> 0 \<and> ev_active (hc_calls c1) Reset_timer
                      then hc_emit [Ev_stop Reset_timer] c1 else c1)
            in (0, c2\<lparr>hc_stat := map_option stat_connection_closed (hc_stat c2)\<rparr>)))"

section \<open>Debug output\<close>

definition hex_digit :: "nat \<Rightarrow> char" where
  "hex_digit d = (if d < 10 then digit_char d else char_of (87 + d))"

fun show_hex :: "nat \<Rightarrow> string" where
  "show_hex n = (if n < 16 then [hex_digit n] else show_hex (n div 16) @ [hex_digit (n mod 16)])"

declare show_hex.simps [simp del]

definition printable :: "u8 \<Rightarrow> char" where
  "printable b = (if 32 \<le> unat b \<and> unat b \<le> 126 then char_of (unat b) else CHR ''.'')"

text \<open>One line of a dump: sixteen bytes in hex, padded, and as text.\<close>

definition dump_line :: "string \<Rightarrow> nat \<Rightarrow> bytes \<Rightarrow> string" where
  "dump_line prefix i row =
     prefix @ pad_left 4 CHR ''0'' (show_hex i) @ '': '' @
     concat (map (\<lambda>k. if k < length row then pad_left 2 CHR ''0'' (show_hex (unat (row ! k))) @ '' '' else ''   '') [0..<16]) @
     map printable row"

function log_rows :: "string \<Rightarrow> nat \<Rightarrow> bytes \<Rightarrow> string list" where
  "log_rows prefix i data = (if data = [] then [] else dump_line prefix i (take 16 data) # log_rows prefix (i + 16) (drop 16 data))"
  by pat_completeness auto
termination
  by (relation "measure (\<lambda>(prefix, i, data). length data)") auto

declare log_rows.simps [simp del]

definition https_log_data :: "string \<Rightarrow> bytes \<Rightarrow> string list" where
  "https_log_data prefix data = log_rows prefix 0 data"

datatype curl_infotype = INFO_TEXT | INFO_HEADER_IN | INFO_HEADER_OUT | INFO_DATA_IN | INFO_DATA_OUT
  | INFO_SSL_DATA_IN | INFO_SSL_DATA_OUT | INFO_other nat

text \<open>
  One round of the loop over the text: \<open>start\<close> is the position of the current line. The comparison with
  \<open>Expire\<close> reads six characters from the start of the line. The text of curl need not end with a NUL; when
  fewer than six characters are left the comparison is taken to see the end of the text, whatever is behind it.
\<close>

definition debug_step :: "string \<Rightarrow> string \<Rightarrow> nat \<Rightarrow> nat option \<times> string list \<Rightarrow> nat option \<times> string list" where
  "debug_step prefix data pos = (\<lambda>(start, out).
     if pos = length data \<or> data ! pos = CHR 0x0D \<or> data ! pos = CHR 0x0A
     then (case start of
             None \<Rightarrow> (start, out)
           | Some k \<Rightarrow>
               if pos - k > 0 \<and> take 6 (drop k data) \<noteq> ''Expire''
               then (None, out @ [prefix @ take (pos - k) (drop k data)])
               else (start, out))
     else (if start = None then (Some pos, out) else (start, out)))"

definition debug_lines :: "string \<Rightarrow> string \<Rightarrow> string list" where
  "debug_lines prefix data = snd (fold (debug_step prefix data) [0..<Suc (length data)] (None, []))"

definition text_of :: "bytes \<Rightarrow> string" where
  "text_of data = map (\<lambda>b. char_of (unat b)) data"

text \<open>The debug lines that \<open>https_curl_debug\<close> logs, without the request id that the macros add.\<close>

definition https_curl_debug :: "curl_infotype \<Rightarrow> bytes \<Rightarrow> string list" where
  "https_curl_debug type data =
     (case type of
        INFO_TEXT \<Rightarrow> debug_lines ''* '' (text_of data)
      | INFO_HEADER_OUT \<Rightarrow> debug_lines ''> '' (text_of data)
      | INFO_HEADER_IN \<Rightarrow> debug_lines ''< '' (text_of data)
      | INFO_DATA_OUT \<Rightarrow> https_log_data ''> '' data
      | INFO_DATA_IN \<Rightarrow> https_log_data ''< '' data
      | _ \<Rightarrow> [])"

definition http_version_str :: "int \<Rightarrow> string res" where
  "http_version_str version =
     (if version = CURL_HTTP_VERSION_1_0 then Inr ''1.0''
      else if version = CURL_HTTP_VERSION_1_1 then Inr ''1.1''
      else if version = CURL_HTTP_VERSION_2_0 \<or> version = CURL_HTTP_VERSION_2TLS then Inr ''2''
      else if version = CURL_HTTP_VERSION_3 then Inr ''3''
      else Inl Fatal)"

section \<open>Starting a transfer\<close>

datatype optval = Long int | Str string | Ptr | Data bytes | Header "string list option"

text \<open>The version asked of curl; the option is set without the assertion of the others.\<close>

definition https_set_request_version :: "'d https_client \<Rightarrow> int res" where
  "https_set_request_version c =
     (let v = use_http_version (hc_opt c)
      in if v = 1 then Inr CURL_HTTP_VERSION_1_1
         else if v = 2 then Inr CURL_HTTP_VERSION_2TLS
         else if v = 3 then Inr CURL_HTTP_VERSION_3
         else Inl Fatal)"

text \<open>
  The asserted options after the version, in the order in which they are set. Only their success matters
  below: the model of a transfer does not keep the values, which are for curl, nor the list for RESOLVE.
\<close>

definition request_options :: "bool \<Rightarrow> string \<Rightarrow> bytes \<Rightarrow> 'd https_client \<Rightarrow> (string \<times> optval) list" where
  "request_options debug url data c =
     (if debug then [(''VERBOSE'', Long 1), (''DEBUGFUNCTION'', Ptr), (''DEBUGDATA'', Ptr)] else []) @
     [(''OPENSOCKETFUNCTION'', Ptr), (''OPENSOCKETDATA'', Ptr), (''CLOSESOCKETFUNCTION'', Ptr),
      (''CLOSESOCKETDATA'', Ptr), (''URL'', Str url), (''HTTPHEADER'', Header (hc_header_list c)),
      (''POSTFIELDSIZE'', Long (int (length data))), (''POSTFIELDS'', Data data), (''WRITEFUNCTION'', Ptr),
      (''WRITEDATA'', Ptr), (''MAXAGE_CONN'', Long (max_idle_time (hc_opt c))),
      (''PIPEWAIT'', Long (if use_http_version (hc_opt c) > 1 then 1 else 0)),
      (''USERAGENT'', Str ''https_dns_proxy/0.4''), (''FOLLOWLOCATION'', Long 0), (''NOSIGNAL'', Long 1),
      (''TIMEOUT'', Long (if hc_connections c > 0 then 5 else 10)), (''SSLVERSION'', Str ''TLSv1_2''),
      (''ERRORBUFFER'', Ptr)] @
     (case curl_proxy (hc_opt c) of None \<Rightarrow> [] | Some s \<Rightarrow> [(''PROXY'', Str s)]) @
     (case source_addr (hc_opt c) of None \<Rightarrow> [] | Some s \<Rightarrow> [(''INTERFACE'', Str s)]) @
     (case ca_info (hc_opt c) of None \<Rightarrow> [] | Some s \<Rightarrow> [(''CAINFO'', Str s)])"

text \<open>The assertion macro: the first option that curl refuses is fatal.\<close>

fun assert_setopt :: "(string \<Rightarrow> bool) \<Rightarrow> (string \<times> optval) list \<Rightarrow> unit res" where
  "assert_setopt setopt_ok [] = Inr ()"
| "assert_setopt setopt_ok ((name, v) # opts) = (if setopt_ok name then assert_setopt setopt_ok opts else Inl Fatal)"

section \<open>Callbacks of curl\<close>

text \<open>\<open>get_io_event\<close>: the first slot with that descriptor.\<close>

definition client_get_io_event :: "'d https_client \<Rightarrow> int \<Rightarrow> nat option" where
  "client_get_io_event c sock = find_slot (hc_io_events c) sock 0"

text \<open>\<open>what\<close> is \<open>None\<close> for CURL_POLL_REMOVE, otherwise whether curl wants to read and to write.\<close>

definition multi_sock_cb :: "int \<Rightarrow> (bool \<times> bool) option \<Rightarrow> 'd https_client \<Rightarrow> int \<times> 'd https_client" where
  "multi_sock_cb sock what c =
     (let (slots, calls) = release_slot Curl_io sock (hc_io_events c, hc_calls c);
          c1 = c\<lparr>hc_io_events := slots, hc_calls := calls\<rparr>
      in case what of
           None \<Rightarrow> (0, c1)
         | Some (rd, wr) \<Rightarrow>
             (case reserve_slot Curl_io sock rd wr (hc_io_events c1, hc_calls c1) of
                None \<Rightarrow> (-1, c1)
              | Some (slots2, calls2) \<Rightarrow> (0, c1\<lparr>hc_io_events := slots2, hc_calls := calls2\<rparr>)))"

definition multi_timer_cb :: "int \<Rightarrow> 'd https_client \<Rightarrow> 'd https_client" where
  "multi_timer_cb timeout_ms c =
     (let c1 = hc_emit [Ev_stop Curl_timer] c
      in if timeout_ms \<ge> 0
         then hc_emit [Ev_set Curl_timer (of_int timeout_ms / 1000) 0, Ev_start Curl_timer] c1 else c1)"

text \<open>The callbacks that curl makes while it works.\<close>

datatype curl_event =
    Ev_socket int "(bool \<times> bool) option"
  | Ev_timeout int
  | Ev_write nat bytes u64 u64
  | Ev_open int bool family
  | Ev_close bool int

text \<open>Writing to the transfer of a handle.\<close>

fun write_fetch :: "mem_env \<Rightarrow> nat \<Rightarrow> bytes \<Rightarrow> u64 \<Rightarrow> u64 \<Rightarrow> 'd fetch_ctx list \<Rightarrow> 'd fetch_ctx list res" where
  "write_fetch me curl data sz nmemb [] = Inr []"
| "write_fetch me curl data sz nmemb (x # xs) =
     (if f_curl x = curl
      then bind_res (write_buffer me data sz nmemb x) (\<lambda>(n, x'). Inr (x' # xs))
      else bind_res (write_fetch me curl data sz nmemb xs) (\<lambda>xs'. Inr (x # xs')))"

fun curl_run :: "mem_env \<Rightarrow> curl_event list \<Rightarrow> 'd https_client \<Rightarrow> 'd https_client res" where
  "curl_run me [] c = Inr c"
| "curl_run me (Ev_socket sock what # es) c = curl_run me es (snd (multi_sock_cb sock what c))"
| "curl_run me (Ev_timeout ms # es) c = curl_run me es (multi_timer_cb ms c)"
| "curl_run me (Ev_write curl data sz nmemb # es) c =
     bind_res (write_fetch me curl data sz nmemb (hc_fetches c)) (\<lambda>fs. curl_run me es (c\<lparr>hc_fetches := fs\<rparr>))"
| "curl_run me (Ev_open sock ipcxn fam # es) c = curl_run me es (snd (opensocket_callback sock ipcxn fam c))"
| "curl_run me (Ev_close ok sock # es) c = curl_run me es (snd (closesocket_callback ok sock c))"

section \<open>The end of a transfer\<close>

text \<open>
  What curl tells about a finished transfer; \<open>None\<close> for a value that cannot be read, for the content type
  also \<open>Some None\<close> for a null pointer.
\<close>

record transfer_info =
  ti_response_code :: "int option"
  ti_uploaded :: "int option"
  ti_content_type :: "string option option"
  ti_num_connects :: "int option"
  ti_http_version :: "int option"

text \<open>The parts of \<open>https_fetch_ctx_process_response\<close>: a timeout starts the reset timer;\<close>

definition note_timeout :: "int \<Rightarrow> 'd https_client \<Rightarrow> 'd https_client" where
  "note_timeout code c =
     (if code = CURLE_OPERATION_TIMEDOUT \<and> \<not> ev_active (hc_calls c) Reset_timer
      then hc_emit [Ev_start Reset_timer] c else c)"

text \<open>
  a response is faulty unless the transfer succeeded with status 200 and a content type that starts with
  the expected one (or cannot be read);
\<close>

definition faulty_response :: "transfer_info \<Rightarrow> int \<Rightarrow> bool" where
  "faulty_response ti code \<longleftrightarrow>
     (if code \<noteq> CURLE_OK \<or> ti_response_code ti \<noteq> Some 200 then True
      else (case ti_content_type ti of
              None \<Rightarrow> False
            | Some None \<Rightarrow> True
            | Some (Some ct) \<Rightarrow> take (length DOH_CONTENT_TYPE) ct \<noteq> DOH_CONTENT_TYPE))"

text \<open>the warning about a resolver that does not answer over HTTP/1 prints the version;\<close>

definition version_note :: "transfer_info \<Rightarrow> 'd https_client \<Rightarrow> string res" where
  "version_note ti c =
     (if ti_response_code ti = Some 0 \<and> (case ti_uploaded ti of None \<Rightarrow> False | Some n \<Rightarrow> n > 0) \<and>
         use_http_version (hc_opt c) = 1
      then http_version_str (use_http_version (hc_opt c)) else Inr [])"

text \<open>a transfer without a new connection counts as reused;\<close>

definition count_reuse :: "bool \<Rightarrow> transfer_info \<Rightarrow> 'd https_client \<Rightarrow> 'd https_client" where
  "count_reuse debug ti c =
     (if (debug \<or> hc_stat c \<noteq> None) \<and> ti_num_connects ti = Some 0
      then c\<lparr>hc_stat := map_option stat_connection_reused (hc_stat c)\<rparr> else c)"

text \<open>debug output prints the version of the response.\<close>

definition version_debug :: "bool \<Rightarrow> transfer_info \<Rightarrow> string res" where
  "version_debug debug ti =
     (case ti_http_version ti of
        None \<Rightarrow> Inr []
      | Some v \<Rightarrow> if debug \<and> v \<noteq> CURL_HTTP_VERSION_NONE then http_version_str v else Inr [])"

text \<open>Whether the response is unusable, with the client afterwards.\<close>

definition https_fetch_ctx_process_response ::
  "bool \<Rightarrow> transfer_info \<Rightarrow> int \<Rightarrow> 'd https_client \<Rightarrow> (bool \<times> 'd https_client) res" where
  "https_fetch_ctx_process_response debug ti code c =
     (let c1 = note_timeout code c
      in bind_res (version_note ti c1) (\<lambda>_.
           (let c2 = count_reuse debug ti c1
            in bind_res (version_debug debug ti) (\<lambda>_. Inr (faulty_response ti code, c2)))))"

text \<open>
  The answers of curl: what the removal of a handle returns, its information, and the callbacks that curl
  makes while it removes or adds a handle.
\<close>

record curl_env =
  ce_mem :: mem_env
  ce_debug :: bool
  ce_remove_ok :: "nat \<Rightarrow> bool"
  ce_info :: "nat \<Rightarrow> transfer_info"
  ce_removing :: "nat \<Rightarrow> curl_event list"
  ce_adding :: "nat \<Rightarrow> curl_event list"

text \<open>\<open>i\<close> is the position of the transfer in the list, 0 when there is no predecessor.\<close>

definition https_fetch_ctx_cleanup ::
  "curl_env \<Rightarrow> ('d, 's) resp_cb \<Rightarrow> nat \<Rightarrow> int \<Rightarrow> 'd https_client \<times> 's \<Rightarrow> ('d https_client \<times> 's) res" where
  "https_fetch_ctx_cleanup env cb i code = (\<lambda>(c, s).
     if length (hc_fetches c) \<le> i then Inl Undef
     else
       bind_res (curl_run (ce_mem env) (ce_removing env (f_curl (hc_fetches c ! i))) c) (\<lambda>c0.
         (let ctx = hc_fetches c0 ! i
          in if \<not> ce_remove_ok env (f_curl ctx) then Inl Fatal
             else
               bind_res (if code < 0 then Inr (True, c0)
                         else https_fetch_ctx_process_response (ce_debug env) (ce_info env (f_curl ctx)) code c0)
                 (\<lambda>(drop_reply, c1).
                    bind_res (cb (f_cb_data ctx)
                                (if drop_reply then None
                                 else map_option (take (unat (f_buflen ctx))) (f_buf ctx)) (hc_stat c1, s))
                      (\<lambda>(st, s'). Inr (c1\<lparr>hc_fetches := take i (hc_fetches c1) @ drop (Suc i) (hc_fetches c1),
                                          hc_stat := st\<rparr>, s'))))))"

lemma process_response_fetches:
  "https_fetch_ctx_process_response debug ti code c = Inr (f, c1) \<Longrightarrow> hc_fetches c1 = hc_fetches c"
  by (auto simp: https_fetch_ctx_process_response_def Let_def hc_emit_def note_timeout_def count_reuse_def)

lemma write_fetch_length: "write_fetch me curl data sz n fs = Inr fs' \<Longrightarrow> length fs' = length fs"
  by (induction fs arbitrary: fs') (auto split: if_splits)

lemma callback_fetches [simp]:
  "hc_fetches (snd (multi_sock_cb sock what c)) = hc_fetches c"
  "hc_fetches (multi_timer_cb ms c) = hc_fetches c"
  "hc_fetches (snd (opensocket_callback sock ipcxn fam c)) = hc_fetches c"
  "hc_fetches (snd (closesocket_callback ok sock c)) = hc_fetches c"
  by (auto simp: multi_sock_cb_def multi_timer_cb_def opensocket_callback_def closesocket_callback_def Let_def hc_emit_def
      split: prod.split option.split)

lemma callback_stat [simp]:
  "hc_stat (snd (multi_sock_cb sock what c)) = hc_stat c"
  "hc_stat (multi_timer_cb ms c) = hc_stat c"
  "hc_stat (snd (opensocket_callback sock ipcxn fam c)) = None \<longleftrightarrow> hc_stat c = None"
  "hc_stat (snd (closesocket_callback ok sock c)) = None \<longleftrightarrow> hc_stat c = None"
  by (auto simp: multi_sock_cb_def multi_timer_cb_def opensocket_callback_def closesocket_callback_def Let_def hc_emit_def
      split: prod.split option.split)

lemma curl_run_length: "curl_run me es c = Inr c' \<Longrightarrow> length (hc_fetches c') = length (hc_fetches c)"
  by (induction me es c rule: curl_run.induct) (auto dest: write_fetch_length)

text \<open>The state between the removal of the handle and the callback.\<close>

lemma cleanup_cases:
  assumes "https_fetch_ctx_cleanup env cb i code (c, s) = Inr (c', s')"
  obtains c0 c1 drop_reply st where "i < length (hc_fetches c)"
    "curl_run (ce_mem env) (ce_removing env (f_curl (hc_fetches c ! i))) c = Inr c0"
    "code < 0 \<and> drop_reply \<and> c1 = c0 \<or> 0 \<le> code \<and> https_fetch_ctx_process_response (ce_debug env)
       (ce_info env (f_curl (hc_fetches c0 ! i))) code c0 = Inr (drop_reply, c1)"
    "cb (f_cb_data (hc_fetches c0 ! i)) (if drop_reply then None
       else map_option (take (unat (f_buflen (hc_fetches c0 ! i)))) (f_buf (hc_fetches c0 ! i))) (hc_stat c1, s) = Inr (st, s')"
    "c' = c1\<lparr>hc_fetches := take i (hc_fetches c0) @ drop (Suc i) (hc_fetches c0), hc_stat := st\<rparr>"
proof -
  obtain c0 where c0: "i < length (hc_fetches c)"
      "curl_run (ce_mem env) (ce_removing env (f_curl (hc_fetches c ! i))) c = Inr c0"
    using assms by (auto simp: https_fetch_ctx_cleanup_def split: if_split_asm)
  let ?ctx = "hc_fetches c0 ! i"
  obtain f c1 st where c1: "(if code < 0 then Inr (True, c0)
        else https_fetch_ctx_process_response (ce_debug env) (ce_info env (f_curl ?ctx)) code c0) = Inr (f, c1)"
      "cb (f_cb_data ?ctx) (if f then None else map_option (take (unat (f_buflen ?ctx))) (f_buf ?ctx)) (hc_stat c1, s) = Inr (st, s')"
      "c' = c1\<lparr>hc_fetches := take i (hc_fetches c1) @ drop (Suc i) (hc_fetches c1), hc_stat := st\<rparr>"
    using assms c0 by (auto simp: https_fetch_ctx_cleanup_def Let_def split: if_split_asm)
  have "code < 0 \<and> f \<and> c1 = c0 \<or> 0 \<le> code \<and> https_fetch_ctx_process_response (ce_debug env)
       (ce_info env (f_curl ?ctx)) code c0 = Inr (f, c1)"
    using c1(1) by (auto split: if_split_asm)
  moreover from this have "hc_fetches c1 = hc_fetches c0" using process_response_fetches by blast
  ultimately show thesis using that [OF c0 _ c1(2)] c1(3) by simp
qed

lemma cleanup_length:
  "https_fetch_ctx_cleanup env cb i code (c, s) = Inr (c', s') \<Longrightarrow> length (hc_fetches c) = Suc (length (hc_fetches c'))"
  by (erule cleanup_cases) (auto dest: curl_run_length)

text \<open>The loop of \<open>https_client_cleanup\<close>, always on the head of the list.\<close>

function abort_all :: "curl_env \<Rightarrow> ('d, 's) resp_cb \<Rightarrow> 'd https_client \<times> 's \<Rightarrow> ('d https_client \<times> 's) res" where
  "abort_all env cb cs =
     (if hc_fetches (fst cs) = [] then Inr cs
      else (case https_fetch_ctx_cleanup env cb 0 (-1) cs of Inl e \<Rightarrow> Inl e | Inr cs' \<Rightarrow> abort_all env cb cs'))"
  by pat_completeness auto
termination
proof (relation "measure (\<lambda>(env, cb, cs). length (hc_fetches (fst cs)))")
  fix env and cb :: "('d, 's) resp_cb" and cs cs' :: "'d https_client \<times> 's"
  assume "https_fetch_ctx_cleanup env cb 0 (-1) cs = Inr cs'"
  then show "((env, cb, cs'), env, cb, cs) \<in> measure (\<lambda>(env, cb, cs). length (hc_fetches (fst cs)))"
    using cleanup_length [of env cb 0 "-1" "fst cs" "snd cs" "fst cs'" "snd cs'"] by simp
qed simp

declare abort_all.simps [simp del]

text \<open>\<open>closing\<close> are the callbacks of \<open>curl_multi_cleanup\<close>.\<close>

definition https_client_cleanup ::
  "curl_env \<Rightarrow> ('d, 's) resp_cb \<Rightarrow> curl_event list \<Rightarrow> 'd https_client \<times> 's \<Rightarrow>
   ('d https_client \<times> 's) res" where
  "https_client_cleanup env cb closing cs =
     bind_res (abort_all env cb cs)
       (\<lambda>(c, s). bind_res (curl_run (ce_mem env) closing (c\<lparr>hc_header_list := None\<rparr>))
          (\<lambda>c1. Inr (hc_emit [Ev_stop Reset_timer] c1, s)))"

text \<open>The option assertions of a new multi handle.\<close>

definition multi_options :: "(string \<times> optval) list" where
  "multi_options = [(''PIPELINING'', Str ''MULTIPLEX''), (''MAX_TOTAL_CONNECTIONS'', Long HTTPS_CONNECTION_LIMIT),
     (''MAX_HOST_CONNECTIONS'', Long HTTPS_CONNECTION_LIMIT), (''SOCKETDATA'', Ptr), (''SOCKETFUNCTION'', Ptr),
     (''TIMERDATA'', Ptr), (''TIMERFUNCTION'', Ptr)]"

definition https_client_multi_init ::
  "(string \<Rightarrow> bool) \<Rightarrow> string list option \<Rightarrow> 'd https_client \<Rightarrow> 'd https_client res" where
  "https_client_multi_init setopt_ok header_list c =
     bind_res (assert_setopt setopt_ok multi_options) (\<lambda>_. Inr (c\<lparr>hc_header_list := header_list\<rparr>))"

definition https_client_reset ::
  "curl_env \<Rightarrow> ('d, 's) resp_cb \<Rightarrow> curl_event list \<Rightarrow> (string \<Rightarrow> bool) \<Rightarrow> 'd https_client \<times> 's \<Rightarrow>
   ('d https_client \<times> 's) res" where
  "https_client_reset env cb closing setopt_ok = (\<lambda>(c, s).
     let header_list = hc_header_list c
     in bind_res (https_client_cleanup env cb closing (c\<lparr>hc_header_list := None\<rparr>, s))
          (\<lambda>(c1, s1). bind_res (https_client_multi_init setopt_ok header_list c1) (\<lambda>c2. Inr (c2, s1))))"

definition reset_timer_cb ::
  "curl_env \<Rightarrow> ('d, 's) resp_cb \<Rightarrow> curl_event list \<Rightarrow> (string \<Rightarrow> bool) \<Rightarrow> 'd https_client \<times> 's \<Rightarrow>
   ('d https_client \<times> 's) res" where
  "reset_timer_cb env cb closing setopt_ok cs = https_client_reset env cb closing setopt_ok cs"

section \<open>Fetching\<close>

text \<open>\<open>curl\<close> is the new easy handle, \<open>added\<close> the result of adding it to the multi handle.\<close>

definition https_fetch_ctx_init ::
  "curl_env \<Rightarrow> ('d, 's) resp_cb \<Rightarrow> curl_event list \<Rightarrow> (string \<Rightarrow> bool) \<Rightarrow> nat \<Rightarrow> curlm_code \<Rightarrow>
   string \<Rightarrow> bytes \<Rightarrow> u16 \<Rightarrow> 'd \<Rightarrow> 'd https_client \<times> 's \<Rightarrow> ('d https_client \<times> 's) res" where
  "https_fetch_ctx_init env cb closing setopt_ok curl added url data tx_id cb_data = (\<lambda>(c, s).
     let ctx = \<lparr>f_curl = curl, f_id = tx_id, f_cb_data = cb_data, f_buf = None, f_buflen = 0\<rparr>;
         c1 = c\<lparr>hc_fetches := ctx # hc_fetches c\<rparr>
     in bind_res (assert_setopt setopt_ok [(''RESOLVE'', Ptr)]) (\<lambda>_.
        bind_res (https_set_request_version c1) (\<lambda>version.
        bind_res (assert_setopt setopt_ok (request_options (ce_debug env) url data c1)) (\<lambda>_.
        bind_res (curl_run (ce_mem env) (ce_adding env curl) c1) (\<lambda>c2.
          case added of
            CURLM_OK \<Rightarrow> Inr (c2, s)
          | CURLM_ABORTED_BY_CALLBACK \<Rightarrow> https_client_reset env cb closing setopt_ok (c2, s)
          | CURLM_error n \<Rightarrow> https_fetch_ctx_cleanup env cb 0 (-1) (c2, s))))))"

definition https_client_fetch ::
  "bool \<Rightarrow> curl_env \<Rightarrow> ('d, 's) resp_cb \<Rightarrow> curl_event list \<Rightarrow> (string \<Rightarrow> bool) \<Rightarrow> nat \<Rightarrow> curlm_code \<Rightarrow>
   string \<Rightarrow> bytes \<Rightarrow> u16 \<Rightarrow> 'd \<Rightarrow> 'd https_client \<times> 's \<Rightarrow> ('d https_client \<times> 's) res" where
  "https_client_fetch alloc env cb closing setopt_ok curl added url data tx_id cb_data cs =
     (if \<not> alloc then Inl Fatal
      else https_fetch_ctx_init env cb closing setopt_ok curl added url data tx_id cb_data cs)"

section \<open>Callbacks of libev\<close>

text \<open>Messages of \<open>curl_multi_info_read\<close>: a transfer is done with a result, or something else.\<close>

datatype curl_msg = Msg_done nat int | Msg_other

text \<open>The search for the transfer of a handle, from position \<open>i\<close> on.\<close>

fun find_fetch :: "'d fetch_ctx list \<Rightarrow> nat \<Rightarrow> nat \<Rightarrow> nat option" where
  "find_fetch [] curl i = None"
| "find_fetch (x # xs) curl i = (if f_curl x = curl then Some i else find_fetch xs curl (Suc i))"

fun check_multi_info ::
  "curl_env \<Rightarrow> ('d, 's) resp_cb \<Rightarrow> curl_msg list \<Rightarrow> 'd https_client \<times> 's \<Rightarrow> ('d https_client \<times> 's) res" where
  "check_multi_info env cb [] cs = Inr cs"
| "check_multi_info env cb (Msg_done curl result # msgs) cs =
     (case find_fetch (hc_fetches (fst cs)) curl 0 of
        None \<Rightarrow> check_multi_info env cb msgs cs
      | Some i \<Rightarrow> bind_res (https_fetch_ctx_cleanup env cb i result cs) (check_multi_info env cb msgs))"
| "check_multi_info env cb (Msg_other # msgs) cs = check_multi_info env cb msgs cs"

text \<open>
  The callbacks of libev. \<open>events\<close> are the callbacks of \<open>curl_multi_socket_action\<close>, \<open>code\<close> its result,
  \<open>msgs\<close> the messages that are then read. An error of a socket action is fatal, and what follows the
  fatal log in \<open>sock_cb\<close> is never reached; an error of a timeout is not.
\<close>

definition client_sock_cb ::
  "curl_env \<Rightarrow> ('d, 's) resp_cb \<Rightarrow> curl_event list \<Rightarrow> curlm_code \<Rightarrow> curl_msg list \<Rightarrow> 'd https_client \<times> 's \<Rightarrow>
   ('d https_client \<times> 's) res" where
  "client_sock_cb env cb events code msgs = (\<lambda>(c, s).
     bind_res (curl_run (ce_mem env) events c) (\<lambda>c1.
       if code = CURLM_OK then check_multi_info env cb msgs (c1, s) else Inl Fatal))"

definition client_timer_cb ::
  "curl_env \<Rightarrow> ('d, 's) resp_cb \<Rightarrow> curl_event list \<Rightarrow> curlm_code \<Rightarrow> curl_msg list \<Rightarrow> 'd https_client \<times> 's \<Rightarrow>
   ('d https_client \<times> 's) res" where
  "client_timer_cb env cb events code msgs = (\<lambda>(c, s).
     bind_res (curl_run (ce_mem env) events c) (\<lambda>c1. check_multi_info env cb msgs (c1, s)))"

definition https_client_init :: "(string \<Rightarrow> bool) \<Rightarrow> options \<Rightarrow> stat option \<Rightarrow> 'd https_client res" where
  "https_client_init setopt_ok opt st =
     https_client_multi_init setopt_ok
       (Some [''Accept: '' @ DOH_CONTENT_TYPE, ''Content-Type: '' @ DOH_CONTENT_TYPE])
       \<lparr>hc_fetches = [], hc_header_list = None,
        hc_io_events = replicate HTTPS_SOCKET_LIMIT \<lparr>io_fd = 0, io_read = False, io_write = False\<rparr>,
        hc_connections = 0, hc_opt = opt, hc_stat = st,
        hc_calls = [Ev_set Reset_timer (of_int (conn_loss_time opt)) 0]\<rparr>"

end
