(* ===== verification/Https_Transfers.thy ===== *)
theory Https_Transfers
  imports Https_Client "HOL-Library.Multiset"
begin

text \<open>
  Correctness of the HTTPS client: response buffers, the table of watched sockets, the bound on
  connections, and that every request gets its callback exactly once.
\<close>

section \<open>Response buffers\<close>

definition buf_ok :: "'d fetch_ctx \<Rightarrow> bool" where
  "buf_ok ctx \<longleftrightarrow> unat (f_buflen ctx) \<le> DOH_MAX_RESPONSE_SIZE \<and>
     (case f_buf ctx of
        None \<Rightarrow> f_buflen ctx = 0
      | Some b \<Rightarrow> length b = Suc (unat (f_buflen ctx)) \<and> b ! unat (f_buflen ctx) = 0)"

definition received :: "'d fetch_ctx \<Rightarrow> bytes" where
  "received ctx = (case f_buf ctx of None \<Rightarrow> [] | Some b \<Rightarrow> take (unat (f_buflen ctx)) b)"

lemma length_received: "buf_ok ctx \<Longrightarrow> length (received ctx) = unat (f_buflen ctx)"
  by (auto simp: buf_ok_def received_def split: option.splits)

lemma write_buffer_correct:
  assumes "buf_ok ctx" "length data = unat (sz * nmemb)" "length data < 2 ^ 63" "\<And>n. malloc_ok me n"
  shows "if length (received ctx) + length data \<le> 65535
     then \<exists>ctx'. write_buffer me data sz nmemb ctx = Inr (sz * nmemb, ctx') \<and> buf_ok ctx' \<and>
            received ctx' = received ctx @ data \<and> f_cb_data ctx' = f_cb_data ctx \<and> f_curl ctx' = f_curl ctx
     else write_buffer me data sz nmemb ctx = Inr (0, ctx)"
proof -
  let ?w = "sz * nmemb" and ?new = "f_buflen ctx + sz * nmemb"
  have len: "length (received ctx) = unat (f_buflen ctx)" by (rule length_received [OF assms(1)])
  have bl: "unat (f_buflen ctx) \<le> 65535" using assms(1) by (simp add: buf_ok_def DOH_MAX_RESPONSE_SIZE_def)
  have new: "unat ?new = unat (f_buflen ctx) + length data"
    using bl assms(2,3) by (simp add: unat_word_ariths)
  show ?thesis
  proof (cases "length (received ctx) + length data \<le> 65535")
    case True
    let ?old = "take (unat (f_buflen ctx)) (case f_buf ctx of None \<Rightarrow> [] | Some b \<Rightarrow> b)"
    let ?ctx = "ctx\<lparr>f_buf := Some (?old @ take (unat ?w) data @ [0]), f_buflen := ?new\<rparr>"
    have old: "?old = received ctx" by (auto simp: received_def split: option.split)
    have "write_buffer me data sz nmemb ctx = Inr (?w, ?ctx)"
      using True len new assms(2,4) by (simp add: write_buffer_def Let_def DOH_MAX_RESPONSE_SIZE_def)
    moreover have "buf_ok ?ctx" "received ?ctx = received ctx @ data"
      using True len new assms(2) unfolding old
      by (simp_all add: buf_ok_def received_def DOH_MAX_RESPONSE_SIZE_def nth_append)
    ultimately show ?thesis using True by simp
  next
    case False
    with len new show ?thesis by (simp add: write_buffer_def Let_def DOH_MAX_RESPONSE_SIZE_def)
  qed
qed

text \<open>
  A response as curl delivers it: pieces of single bytes, until \<open>write_buffer\<close> does not take a piece,
  which ends the transfer with an error.
\<close>

fun write_all :: "mem_env \<Rightarrow> bytes list \<Rightarrow> 'd fetch_ctx \<Rightarrow> (bool \<times> 'd fetch_ctx) res" where
  "write_all me [] ctx = Inr (True, ctx)"
| "write_all me (x # xs) ctx =
     bind_res (write_buffer me x 1 (word_of_nat (length x)) ctx)
       (\<lambda>(n, ctx'). if unat n = length x then write_all me xs ctx' else Inr (False, ctx'))"

lemma write_all_correct:
  assumes "buf_ok ctx" "\<forall>x \<in> set xs. x \<noteq> [] \<and> length x < 2 ^ 63" "\<And>n. malloc_ok me n"
  shows "\<exists>ctx'. write_all me xs ctx = Inr (length (received ctx) + length (concat xs) \<le> 65535, ctx') \<and> buf_ok ctx' \<and>
     (length (received ctx) + length (concat xs) \<le> 65535 \<longrightarrow> received ctx' = received ctx @ concat xs)"
  using assms(1,2)
proof (induction xs arbitrary: ctx)
  case Nil
  then show ?case using length_received [of ctx] by (simp add: buf_ok_def DOH_MAX_RESPONSE_SIZE_def)
next
  case (Cons x xs)
  have x: "x \<noteq> []" "length x < 2 ^ 63" using Cons.prems(2) by simp_all
  have ux: "unat (1 * word_of_nat (length x) :: u64) = length x" using x(2) by (simp add: unat_of_nat)
  note wb = write_buffer_correct [OF Cons.prems(1), of x 1 "word_of_nat (length x)" me]
  show ?case
  proof (cases "length (received ctx) + length x \<le> 65535")
    case True
    then obtain ctx1 where c1: "write_buffer me x 1 (word_of_nat (length x)) ctx = Inr (1 * word_of_nat (length x), ctx1)"
        "buf_ok ctx1" "received ctx1 = received ctx @ x"
      using wb ux x(2) assms(3) by auto
    from Cons.IH [OF c1(2)] Cons.prems(2) show ?thesis
      using c1(1,3) ux by (simp add: add.assoc)
  next
    case False
    then have "write_buffer me x 1 (word_of_nat (length x)) ctx = Inr (0, ctx)"
      using wb ux x(2) assms(3) by simp
    with False x(1) Cons.prems(1) show ?thesis by simp
  qed
qed

section \<open>Sockets and connections\<close>

text \<open>
  What curl keeps to: it does not use descriptor 0 (the mark of a free slot), and the memory it passes has
  the announced size.
\<close>

fun event_ok :: "curl_event \<Rightarrow> bool" where
  "event_ok (Ev_socket sock what) \<longleftrightarrow> sock \<noteq> 0"
| "event_ok (Ev_write curl data sz n) \<longleftrightarrow> length data = unat (sz * n) \<and> length data < 2 ^ 63"
| "event_ok _ \<longleftrightarrow> True"

definition events_ok :: "curl_event list \<Rightarrow> bool" where
  "events_ok es \<longleftrightarrow> (\<forall>e \<in> set es. event_ok e)"

lemma events_ok_simps [simp]: "events_ok []" "events_ok (e # es) \<longleftrightarrow> event_ok e \<and> events_ok es"
  by (simp_all add: events_ok_def)

text \<open>While it adds or removes a handle curl makes such callbacks too, but delivers no data.\<close>

fun delivers :: "curl_event \<Rightarrow> bool" where
  "delivers (Ev_write curl data sz n) \<longleftrightarrow> True"
| "delivers _ \<longleftrightarrow> False"

definition env_ok :: "curl_env \<Rightarrow> bool" where
  "env_ok env \<longleftrightarrow> (\<forall>h. events_ok (ce_removing env h) \<and> events_ok (ce_adding env h) \<and>
     (\<forall>e \<in> set (ce_removing env h) \<union> set (ce_adding env h). \<not> delivers e))"

lemma curl_run_fetches:
  "curl_run me es c = Inr c' \<Longrightarrow> \<forall>e \<in> set es. \<not> delivers e \<Longrightarrow> hc_fetches c' = hc_fetches c"
  by (induction me es c rule: curl_run.induct) auto

lemma env_okD:
  assumes "env_ok env"
  shows "events_ok (ce_removing env h)" "events_ok (ce_adding env h)"
    and "curl_run me (ce_removing env h) c = Inr c' \<Longrightarrow> hc_fetches c' = hc_fetches c"
    and "curl_run me (ce_adding env h) c = Inr c' \<Longrightarrow> hc_fetches c' = hc_fetches c"
  using assms curl_run_fetches unfolding env_ok_def by (blast, blast, blast, blast)

definition https_ok :: "'d https_client \<Rightarrow> bool" where
  "https_ok c \<longleftrightarrow>
     slots_ok Curl_io (hc_io_events c, hc_calls c) \<and> length (hc_io_events c) = HTTPS_SOCKET_LIMIT \<and>
     hc_connections c \<le> int HTTPS_SOCKET_LIMIT \<and> (\<forall>ctx \<in> set (hc_fetches c). buf_ok ctx)"

lemma inj_Curl_io: "inj Curl_io"
  by (simp add: inj_def)

lemma slots_ok_calls:
  assumes "\<And>i. ev_active (calls @ cs) (w i) = ev_active calls (w i)"
  shows "slots_ok w (slots, calls @ cs) = slots_ok w (slots, calls)"
  using assms by (simp add: slots_ok_def)

lemma https_ok_emit:
  assumes "\<And>i. ev_active (hc_calls c @ cs) (Curl_io i) = ev_active (hc_calls c) (Curl_io i)"
  shows "https_ok (hc_emit cs c) = https_ok c"
  using assms by (simp add: https_ok_def hc_emit_def slots_ok_def)

lemma multi_sock_cb_ok:
  assumes "https_ok c" "sock \<noteq> 0"
  shows "https_ok (snd (multi_sock_cb sock what c))"
    and "fst (multi_sock_cb sock what c) = 0 \<Longrightarrow>
         watched (hc_io_events (snd (multi_sock_cb sock what c))) = (watched (hc_io_events c))(sock := what)"
    and "hc_fetches (snd (multi_sock_cb sock what c)) = hc_fetches c"
proof -
  obtain s1 c1 where rel: "release_slot Curl_io sock (hc_io_events c, hc_calls c) = (s1, c1)" by fastforce
  have r: "slots_ok Curl_io (s1, c1)" "watched s1 = (watched (hc_io_events c))(sock := None)" "length s1 = length (hc_io_events c)"
    using release_slot_correct [OF _ inj_Curl_io assms(2), of "(hc_io_events c, hc_calls c)"] assms(1) rel
    by (simp_all add: https_ok_def)
  have "https_ok (snd (multi_sock_cb sock what c)) \<and>
    (fst (multi_sock_cb sock what c) = 0 \<longrightarrow>
       watched (hc_io_events (snd (multi_sock_cb sock what c))) = (watched (hc_io_events c))(sock := what)) \<and>
    hc_fetches (snd (multi_sock_cb sock what c)) = hc_fetches c"
  proof (cases what)
    case None
    with rel r assms(1) show ?thesis by (simp add: multi_sock_cb_def https_ok_def)
  next
    case (Some ev)
    obtain rd wr where ev: "ev = (rd, wr)" by fastforce
    show ?thesis
    proof (cases "reserve_slot Curl_io sock rd wr (s1, c1)")
      case None
      with rel r assms(1) Some ev show ?thesis by (simp add: multi_sock_cb_def https_ok_def)
    next
      case res: (Some sc)
      obtain s2 c2 where sc: "sc = (s2, c2)" by fastforce
      with reserve_slot_correct [OF r(1) inj_Curl_io assms(2), of rd wr sc] res r(2,3) rel assms(1) Some ev show ?thesis
        by (simp add: multi_sock_cb_def https_ok_def)
    qed
  qed
  then show "https_ok (snd (multi_sock_cb sock what c))"
    and "fst (multi_sock_cb sock what c) = 0 \<Longrightarrow>
         watched (hc_io_events (snd (multi_sock_cb sock what c))) = (watched (hc_io_events c))(sock := what)"
    and "hc_fetches (snd (multi_sock_cb sock what c)) = hc_fetches c"
    by blast+
qed

text \<open>The contract with curl: the callback's result 0 means that the socket is watched as asked.\<close>

definition client_watch :: "int \<Rightarrow> (bool \<times> bool) option \<Rightarrow> 'd https_client \<Rightarrow> 'd https_client option" where
  "client_watch fd ev c = (case multi_sock_cb fd ev c of (r, c') \<Rightarrow> if r = 0 then Some c' else None)"

interpretation client_sockets: socket_watcher client_watch "\<lambda>c. watched (hc_io_events c)" https_ok
proof unfold_locales
  fix c c' :: "'a https_client" and fd ev
  assume c: "https_ok c" "fd \<noteq> 0" "client_watch fd ev c = Some c'"
  then have "fst (multi_sock_cb fd ev c) = 0" "c' = snd (multi_sock_cb fd ev c)"
    by (auto simp: client_watch_def split: prod.splits if_splits)
  with multi_sock_cb_ok [OF c(1,2), of ev] show "https_ok c'" "watched (hc_io_events c') = (watched (hc_io_events c))(fd := ev)"
    by simp_all
next
  fix c :: "'a https_client" and fd
  show "client_watch fd None c \<noteq> None"
    by (auto simp: client_watch_def multi_sock_cb_def split: prod.splits)
qed

lemma multi_timer_cb_ok [simp]:
  "https_ok (multi_timer_cb ms c) = https_ok c"
  by (simp add: multi_timer_cb_def Let_def https_ok_emit ev_active_append)

lemma opensocket_ok:
  "https_ok c \<Longrightarrow> https_ok (snd (opensocket_callback sock ipcxn fam c))"
  by (auto simp: opensocket_callback_def Let_def https_ok_emit ev_active_append)
    (auto simp: https_ok_def hc_emit_def)

lemma closesocket_ok:
  "https_ok c \<Longrightarrow> https_ok (snd (closesocket_callback ok sock c))"
  by (auto simp: closesocket_callback_def Let_def https_ok_def hc_emit_def slots_ok_def ev_active_append)

lemma write_fetch_ok:
  assumes "write_fetch me curl data sz n fs = Inr fs'" "length data = unat (sz * n)" "length data < 2 ^ 63"
    and "\<forall>ctx \<in> set fs. buf_ok ctx"
  shows "(\<forall>ctx \<in> set fs'. buf_ok ctx) \<and> map f_cb_data fs' = map f_cb_data fs"
  using assms(1,4)
proof (induction fs arbitrary: fs')
  case (Cons x xs)
  show ?case
  proof (cases "f_curl x = curl")
    case False
    with Cons show ?thesis by auto
  next
    case True
    with Cons.prems(1) obtain k x' where x': "write_buffer me data sz n x = Inr (k, x')" "fs' = x' # xs" by auto
    have "write_buffer me data sz n x = Inr (0, x) \<or> write_buffer me data sz n x = write_buffer (me\<lparr>malloc_ok := \<lambda>_. True\<rparr>) data sz n x"
      by (simp add: write_buffer_def Let_def)
    then have "buf_ok x' \<and> f_cb_data x' = f_cb_data x"
      using x'(1) write_buffer_correct [of x data sz n "me\<lparr>malloc_ok := \<lambda>_. True\<rparr>"] Cons.prems(2) assms(2,3)
      by (auto split: if_splits)
    with x'(2) Cons.prems(2) show ?thesis by simp
  qed
qed simp

lemma curl_run_ok:
  assumes "curl_run me es c = Inr c'" "events_ok es" "https_ok c"
  shows "https_ok c' \<and> map f_cb_data (hc_fetches c') = map f_cb_data (hc_fetches c) \<and> (hc_stat c' = None \<longleftrightarrow> hc_stat c = None)"
  using assms
proof (induction me es c rule: curl_run.induct)
  case (2 me sock what es c)
  then have "sock \<noteq> 0" "events_ok es" by simp_all
  with 2 multi_sock_cb_ok [OF 2(4), of sock what] show ?case by simp
next
  case (3 me ms es c)
  then show ?case by auto
next
  case (4 me curl data sz n es c)
  then obtain fs where fs: "write_fetch me curl data sz n (hc_fetches c) = Inr fs"
    "curl_run me es (c\<lparr>hc_fetches := fs\<rparr>) = Inr c'" by auto
  have ev: "length data = unat (sz * n)" "length data < 2 ^ 63" "events_ok es"
    using 4(3) by simp_all
  have "(\<forall>ctx \<in> set fs. buf_ok ctx) \<and> map f_cb_data fs = map f_cb_data (hc_fetches c)"
    using write_fetch_ok [OF fs(1) ev(1,2)] 4(4) by (simp add: https_ok_def)
  with 4(1) [OF fs(2) ev(3)] 4(4) show ?case by (simp add: https_ok_def)
next
  case (5 me sock ipcxn fam es c)
  then show ?case by (simp add: opensocket_ok)
next
  case (6 me ok sock es c)
  then show ?case by (simp add: closesocket_ok)
qed simp

section \<open>Replies\<close>

lemma process_response_ok:
  assumes "https_fetch_ctx_process_response debug ti code c = Inr (f, c1)" "https_ok c"
  shows "https_ok c1" "f = faulty_response ti code" "hc_stat c1 = None \<longleftrightarrow> hc_stat c = None"
proof -
  have c1: "c1 = count_reuse debug ti (note_timeout code c)" and f: "f = faulty_response ti code"
    using assms(1) by (auto simp: https_fetch_ctx_process_response_def Let_def)
  have "https_ok (note_timeout code c)"
    using assms(2) by (simp add: note_timeout_def https_ok_emit ev_active_append)
  then show "https_ok c1" by (simp add: c1 count_reuse_def https_ok_def)
  show "hc_stat c1 = None \<longleftrightarrow> hc_stat c = None" by (simp add: c1 count_reuse_def note_timeout_def hc_emit_def)
  show "f = faulty_response ti code" by (rule f)
qed

lemma mset_remove_nth:
  assumes "i < length xs"
  shows "add_mset (f (xs ! i)) (mset (map f (take i xs @ drop (Suc i) xs))) = mset (map f xs)"
proof -
  have "mset (map f xs) = mset (map f (take i xs @ xs ! i # drop (Suc i) xs))"
    using id_take_nth_drop [OF assms] by metis
  then show ?thesis by simp
qed

text \<open>
  The contract between the client and its response callback. \<open>inv\<close> relates the data of the requests under
  way and whether there are statistics to the state of the callback; the callback for one request gives
  up that request and keeps \<open>inv\<close>. Then every operation of the client keeps it.
\<close>

locale reply_handler =
  fixes cb :: "('d, 's) resp_cb"
    and inv :: "'d multiset \<Rightarrow> bool \<Rightarrow> 's \<Rightarrow> bool"
  assumes cb_inv: "inv (add_mset d M) (st \<noteq> None) s \<Longrightarrow> cb d r (st, s) = Inr (st', s') \<Longrightarrow>
    (st' = None \<longleftrightarrow> st = None) \<and> inv M (st \<noteq> None) s'"
begin

definition good :: "'d https_client \<Rightarrow> 's \<Rightarrow> bool" where
  "good c s \<longleftrightarrow> https_ok c \<and> inv (mset (map f_cb_data (hc_fetches c))) (hc_stat c \<noteq> None) s"

lemma cleanup_good:
  assumes "https_fetch_ctx_cleanup env cb i code (c, s) = Inr (c', s')" "good c s" "env_ok env"
  shows "good c' s'"
  using assms(1)
proof (cases rule: cleanup_cases)
  case (1 c0 c1 f st)
  have ok0: "https_ok c0" "hc_stat c0 = None \<longleftrightarrow> hc_stat c = None" and f0: "hc_fetches c0 = hc_fetches c"
    using curl_run_ok [OF 1(2) env_okD(1) [OF assms(3)]] env_okD(3) [OF assms(3) 1(2)] assms(2) by (simp_all add: good_def)
  have ok1: "https_ok c1" "hc_stat c1 = None \<longleftrightarrow> hc_stat c0 = None" using 1(3) ok0(1) process_response_ok by blast+
  have "add_mset (f_cb_data (hc_fetches c ! i)) (mset (map f_cb_data (hc_fetches c'))) = mset (map f_cb_data (hc_fetches c))"
    using mset_remove_nth [OF 1(1), of f_cb_data] by (simp add: 1(5) f0)
  then have "inv (add_mset (f_cb_data (hc_fetches c ! i)) (mset (map f_cb_data (hc_fetches c')))) (hc_stat c1 \<noteq> None) s"
    using assms(2) ok0(2) ok1(2) by (simp add: good_def)
  from cb_inv [OF this 1(4) [unfolded f0]] have "inv (mset (map f_cb_data (hc_fetches c'))) (hc_stat c' \<noteq> None) s'"
    by (simp add: 1(5))
  moreover have "set (take i xs) \<union> set (drop (Suc i) xs) \<subseteq> set xs" for xs :: "'d fetch_ctx list"
    by (simp add: set_take_subset set_drop_subset)
  with ok0 ok1 have "https_ok c'" unfolding 1(5) https_ok_def by (simp, blast)
  ultimately show ?thesis by (simp add: good_def)
qed

lemma abort_all_good:
  "abort_all env cb cs = Inr cs' \<Longrightarrow> good (fst cs) (snd cs) \<Longrightarrow> env_ok env \<Longrightarrow>
   good (fst cs') (snd cs') \<and> hc_fetches (fst cs') = []"
proof (induction "length (hc_fetches (fst cs))" arbitrary: cs)
  case 0
  then show ?case by (simp add: abort_all.simps)
next
  case (Suc n)
  obtain cs1 where cs1: "https_fetch_ctx_cleanup env cb 0 (-1) (fst cs, snd cs) = Inr (fst cs1, snd cs1)" "abort_all env cb cs1 = Inr cs'"
    using Suc.hyps(2) Suc.prems(1) by (subst (asm) abort_all.simps) (auto split: sum.splits if_split_asm)
  have "n = length (hc_fetches (fst cs1))" using cleanup_length [OF cs1(1)] Suc.hyps(2) by simp
  with Suc.hyps(1) [OF _ cs1(2)] cleanup_good [OF cs1(1)] Suc.prems(2,3) show ?case by simp
qed

lemma client_cleanup_good:
  assumes "https_client_cleanup env cb closing (c, s) = Inr (c', s')" "good c s" "events_ok closing" "env_ok env"
  shows "good c' s' \<and> hc_fetches c' = []"
proof -
  obtain c1 s1 c2 where c: "abort_all env cb (c, s) = Inr (c1, s1)"
      "curl_run (ce_mem env) closing (c1\<lparr>hc_header_list := None\<rparr>) = Inr c2"
      "c' = hc_emit [Ev_stop Reset_timer] c2" "s' = s1"
    using assms(1) by (auto simp: https_client_cleanup_def)
  have a: "good c1 s1" "hc_fetches c1 = []"
    using abort_all_good [OF c(1)] assms(2,4) by simp_all
  have "https_ok (c1\<lparr>hc_header_list := None\<rparr>)" using a(1) by (simp add: good_def https_ok_def)
  from curl_run_ok [OF c(2) assms(3) this] a(2) have c2: "https_ok c2" "hc_fetches c2 = []" "hc_stat c2 = None \<longleftrightarrow> hc_stat c1 = None"
    by simp_all
  then have "https_ok (hc_emit [Ev_stop Reset_timer] c2)"
    by (simp add: https_ok_emit ev_active_append)
  with c2 a show ?thesis by (simp add: c(3,4) good_def hc_emit_def)
qed

lemma client_reset_good:
  assumes "https_client_reset env cb closing setopt_ok (c, s) = Inr (c', s')" "good c s" "events_ok closing" "env_ok env"
  shows "good c' s' \<and> hc_fetches c' = []"
proof -
  obtain c1 where c1: "https_client_cleanup env cb closing (c\<lparr>hc_header_list := None\<rparr>, s) = Inr (c1, s')"
      "c' = c1\<lparr>hc_header_list := hc_header_list c\<rparr>"
    using assms(1) by (auto simp: https_client_reset_def Let_def https_client_multi_init_def)
  have "good (c\<lparr>hc_header_list := None\<rparr>) s" using assms(2) by (simp add: good_def https_ok_def)
  from client_cleanup_good [OF c1(1) this assms(3,4)] show ?thesis by (auto simp: c1(2) good_def https_ok_def)
qed

lemma check_multi_info_good:
  "check_multi_info env cb msgs cs = Inr cs' \<Longrightarrow> good (fst cs) (snd cs) \<Longrightarrow> env_ok env \<Longrightarrow> good (fst cs') (snd cs')"
proof (induction msgs arbitrary: cs)
  case (Cons m msgs)
  show ?case
  proof (cases m)
    case Msg_other
    with Cons show ?thesis by simp
  next
    case (Msg_done curl result)
    show ?thesis
    proof (cases "find_fetch (hc_fetches (fst cs)) curl 0")
      case None
      with Cons Msg_done show ?thesis by simp
    next
      case (Some i)
      then obtain cs1 where cs1: "https_fetch_ctx_cleanup env cb i result (fst cs, snd cs) = Inr (fst cs1, snd cs1)"
          "check_multi_info env cb msgs cs1 = Inr cs'" using Cons.prems(1) Msg_done by auto
      from Cons.IH [OF cs1(2)] cleanup_good [OF cs1(1)] Cons.prems(2,3) show ?thesis by simp
    qed
  qed
qed simp

lemma events_good:
  assumes "curl_run me events c = Inr c'" "good c s" "events_ok events"
  shows "good c' s"
  using curl_run_ok [OF assms(1,3)] assms(2) by (auto simp: good_def simp flip: mset_map)

lemma sock_cb_good:
  assumes "client_sock_cb env cb events code msgs (c, s) = Inr (c', s')" "good c s" "events_ok events" "env_ok env"
  shows "good c' s'"
proof -
  obtain c1 where c1: "curl_run (ce_mem env) events c = Inr c1" "check_multi_info env cb msgs (c1, s) = Inr (c', s')"
    using assms(1) by (auto simp: client_sock_cb_def split: if_splits)
  from check_multi_info_good [OF c1(2)] events_good [OF c1(1) assms(2,3)] assms(4) show ?thesis by simp
qed

lemma timer_cb_good:
  assumes "client_timer_cb env cb events code msgs (c, s) = Inr (c', s')" "good c s" "events_ok events" "env_ok env"
  shows "good c' s'"
proof -
  obtain c1 where c1: "curl_run (ce_mem env) events c = Inr c1" "check_multi_info env cb msgs (c1, s) = Inr (c', s')"
    using assms(1) by (auto simp: client_timer_cb_def)
  from check_multi_info_good [OF c1(2)] events_good [OF c1(1) assms(2,3)] assms(4) show ?thesis by simp
qed

lemma fetch_good:
  assumes "https_client_fetch alloc env cb closing setopt_ok curl added url data tx_id d (c, s) = Inr (c', s')"
    and "https_ok c" "inv (add_mset d (mset (map f_cb_data (hc_fetches c)))) (hc_stat c \<noteq> None) s" "events_ok closing" "env_ok env"
  shows "good c' s'"
proof -
  define c1 where "c1 = c\<lparr>hc_fetches := \<lparr>f_curl = curl, f_id = tx_id, f_cb_data = d, f_buf = None, f_buflen = 0\<rparr> # hc_fetches c\<rparr>"
  have good1: "good c1 s"
    using assms(2,3) by (simp add: c1_def good_def https_ok_def buf_ok_def)
  obtain c2 where c2: "curl_run (ce_mem env) (ce_adding env curl) c1 = Inr c2" "added = CURLM_OK \<and> c' = c2 \<and> s' = s \<or>
      https_client_reset env cb closing setopt_ok (c2, s) = Inr (c', s') \<or>
      https_fetch_ctx_cleanup env cb 0 (-1) (c2, s) = Inr (c', s')"
    using assms(1)
    by (cases added)
      (auto simp: https_client_fetch_def https_fetch_ctx_init_def Let_def c1_def [symmetric] split: if_split_asm)
  have "good c2 s" using events_good [OF c2(1) good1 env_okD(2) [OF assms(5)]] .
  with c2(2) show ?thesis
    using client_reset_good [of env closing setopt_ok c2 s c' s'] cleanup_good [of env 0 "-1" c2 s c' s'] assms(4,5) by auto
qed

end

section \<open>Shutting down returns\<close>

lemma write_fetch_returns:
  "length data = unat (sz * n) \<Longrightarrow> \<exists>fs'. write_fetch me curl data sz n fs = Inr fs'"
proof (induction fs)
  case (Cons x xs)
  then show ?case by (auto simp: write_buffer_def Let_def)
qed simp

lemma curl_run_returns: "events_ok es \<Longrightarrow> \<exists>c'. curl_run me es c = Inr c'"
proof (induction me es c rule: curl_run.induct)
  case (4 me curl data sz n es c)
  then obtain fs where "write_fetch me curl data sz n (hc_fetches c) = Inr fs" using write_fetch_returns by fastforce
  with 4 show ?case by simp
qed auto

text \<open>A handler that also returns when a request is aborted.\<close>

locale abortable_handler = reply_handler +
  assumes abort_returns: "inv (add_mset d M) (st \<noteq> None) s \<Longrightarrow> \<exists>r. cb d None (st, s) = Inr r"
begin

lemma abort_all_returns:
  "good (fst cs) (snd cs) \<Longrightarrow> env_ok env \<Longrightarrow> \<forall>h. ce_remove_ok env h \<Longrightarrow> \<exists>cs'. abort_all env cb cs = Inr cs'"
proof (induction "length (hc_fetches (fst cs))" arbitrary: cs)
  case 0
  then show ?case by (simp add: abort_all.simps)
next
  case (Suc n)
  obtain c s where cs: "cs = (c, s)" by fastforce
  obtain c0 where c0: "curl_run (ce_mem env) (ce_removing env (f_curl (hc_fetches c ! 0))) c = Inr c0"
    using curl_run_returns env_okD(1) [OF Suc.prems(2)] by blast
  have g: "good c0 s" "hc_fetches c0 = hc_fetches c"
    using events_good [OF c0 _ env_okD(1) [OF Suc.prems(2)]] env_okD(3) [OF Suc.prems(2) c0] Suc.prems(1) by (simp_all add: cs)
  obtain x xs where x: "hc_fetches c = x # xs" using Suc.hyps(2) by (cases "hc_fetches c") (simp_all add: cs)
  then obtain r where "cb (f_cb_data x) None (hc_stat c0, s) = Inr r"
    using abort_returns [of "f_cb_data x" "mset (map f_cb_data xs)" "hc_stat c0" s] g by (auto simp: good_def)
  then obtain cs1 where cs1: "https_fetch_ctx_cleanup env cb 0 (-1) (c, s) = Inr (fst cs1, snd cs1)"
    using c0 g(2) x Suc.prems(3) by (cases r) (fastforce simp: https_fetch_ctx_cleanup_def Let_def)
  have n: "n = length (hc_fetches (fst cs1))" using cleanup_length [OF cs1] Suc.hyps(2) by (simp add: cs)
  have "good (fst cs1) (snd cs1)" using cleanup_good [OF cs1] Suc.prems(1,2) by (simp add: cs)
  from Suc.hyps(1) [OF n this Suc.prems(2,3)] cs1 x show ?case by (subst abort_all.simps) (simp add: cs)
qed

lemma client_cleanup_returns:
  assumes "good c s" "env_ok env" "\<forall>h. ce_remove_ok env h" "events_ok closing"
  shows "\<exists>c' s'. https_client_cleanup env cb closing (c, s) = Inr (c', s')"
proof -
  obtain c1 s1 where "abort_all env cb (c, s) = Inr (c1, s1)"
    using abort_all_returns [of "(c, s)" env] assms(1-3) by fastforce
  then show ?thesis using curl_run_returns [OF assms(4), of "ce_mem env" "c1\<lparr>hc_header_list := None\<rparr>"]
    by (auto simp: https_client_cleanup_def)
qed

lemma client_reset_returns:
  assumes "good c s" "env_ok env" "\<forall>h. ce_remove_ok env h" "events_ok closing" "\<forall>n. setopt_ok n"
  shows "\<exists>c' s'. https_client_reset env cb closing setopt_ok (c, s) = Inr (c', s')"
proof -
  have "good (c\<lparr>hc_header_list := None\<rparr>) s" using assms(1) by (simp add: good_def https_ok_def)
  from client_cleanup_returns [OF this assms(2-4)] assms(5) show ?thesis
    by (auto simp: https_client_reset_def Let_def https_client_multi_init_def multi_options_def)
qed

lemma abort_first_returns:
  assumes "good c s" "env_ok env" "\<forall>h. ce_remove_ok env h" "hc_fetches c \<noteq> []"
  shows "\<exists>c' s'. https_fetch_ctx_cleanup env cb 0 (-1) (c, s) = Inr (c', s')"
proof -
  obtain c0 where c0: "curl_run (ce_mem env) (ce_removing env (f_curl (hc_fetches c ! 0))) c = Inr c0"
    using curl_run_returns env_okD(1) [OF assms(2)] by blast
  have g: "good c0 s" "hc_fetches c0 = hc_fetches c"
    using events_good [OF c0 assms(1) env_okD(1) [OF assms(2)]] env_okD(3) [OF assms(2) c0] .
  obtain x xs where x: "hc_fetches c = x # xs" using assms(4) by (cases "hc_fetches c") simp_all
  then obtain st s' where "cb (f_cb_data x) None (hc_stat c0, s) = Inr (st, s')"
    using abort_returns [of "f_cb_data x" "mset (map f_cb_data xs)" "hc_stat c0" s] g by (auto simp: good_def)
  then show ?thesis using c0 g(2) x assms(3) by (auto simp: https_fetch_ctx_cleanup_def Let_def)
qed

lemma fetch_returns:
  assumes "https_ok c" "inv (add_mset d (mset (map f_cb_data (hc_fetches c)))) (hc_stat c \<noteq> None) s"
    and "env_ok env" "\<forall>h. ce_remove_ok env h" "events_ok closing" "\<forall>n. setopt_ok n" "use_http_version (hc_opt c) \<in> {1, 2, 3}"
  shows "\<exists>c' s'. https_client_fetch True env cb closing setopt_ok curl added url data tx_id d (c, s) = Inr (c', s') \<and>
    (added = CURLM_OK \<longrightarrow> s' = s \<and>
      hc_fetches c' = \<lparr>f_curl = curl, f_id = tx_id, f_cb_data = d, f_buf = None, f_buflen = 0\<rparr> # hc_fetches c)"
proof -
  define c1 where "c1 = c\<lparr>hc_fetches := \<lparr>f_curl = curl, f_id = tx_id, f_cb_data = d, f_buf = None, f_buflen = 0\<rparr> # hc_fetches c\<rparr>"
  have good1: "good c1 s" using assms(1,2) by (simp add: c1_def good_def https_ok_def buf_ok_def)
  obtain c2 where c2: "curl_run (ce_mem env) (ce_adding env curl) c1 = Inr c2"
    using curl_run_returns env_okD(2) [OF assms(3)] by blast
  have g2: "good c2 s" "hc_fetches c2 = hc_fetches c1"
    using events_good [OF c2 good1 env_okD(2) [OF assms(3)]] env_okD(4) [OF assms(3) c2] .
  have set: "assert_setopt setopt_ok opts = Inr ()" for opts
    using assms(6) by (induction opts) auto
  obtain v where v: "https_set_request_version c1 = Inr v"
    using assms(7) by (auto simp: https_set_request_version_def c1_def Let_def)
  have init: "https_client_fetch True env cb closing setopt_ok curl added url data tx_id d (c, s) =
      (case added of CURLM_OK \<Rightarrow> Inr (c2, s)
       | CURLM_ABORTED_BY_CALLBACK \<Rightarrow> https_client_reset env cb closing setopt_ok (c2, s)
       | CURLM_error n \<Rightarrow> https_fetch_ctx_cleanup env cb 0 (-1) (c2, s))"
    using c2 set v unfolding https_client_fetch_def https_fetch_ctx_init_def
    by (simp only: c1_def [symmetric] Let_def bind_res.simps prod.case if_False simp_thms)
  obtain c3 s3 c4 s4 where "https_client_reset env cb closing setopt_ok (c2, s) = Inr (c3, s3)"
      "https_fetch_ctx_cleanup env cb 0 (-1) (c2, s) = Inr (c4, s4)"
    using client_reset_returns [OF g2(1) assms(3-6)] abort_first_returns [OF g2(1) assms(3,4)] g2(2) by (auto simp: c1_def)
  with g2(2) show ?thesis unfolding init by (cases added) (auto simp: c1_def)
qed

end

text \<open>Aborting requests calls back without a response, so only that part of a callback matters.\<close>

lemma abort_cleanup_cong:
  assumes "code < 0"
  shows "https_fetch_ctx_cleanup env cb i code = https_fetch_ctx_cleanup env (\<lambda>d r. cb d None) i code"
proof
  fix cs :: "'a https_client \<times> 'b"
  obtain c s where cs: "cs = (c, s)" by fastforce
  show "https_fetch_ctx_cleanup env cb i code cs = https_fetch_ctx_cleanup env (\<lambda>d r. cb d None) i code cs"
    using assms by (cases "curl_run (ce_mem env) (ce_removing env (f_curl (hc_fetches c ! i))) c")
      (simp_all add: https_fetch_ctx_cleanup_def cs Let_def)
qed

lemma abort_all_cong: "abort_all env cb cs = abort_all env (\<lambda>d r. cb d None) cs"
proof (induction "length (hc_fetches (fst cs))" arbitrary: cs)
  case 0
  then show ?case by (simp add: abort_all.simps)
next
  case (Suc n)
  have "n = length (hc_fetches (fst cs1))" if "https_fetch_ctx_cleanup env (\<lambda>d r. cb d None) 0 (-1) cs = Inr cs1" for cs1
    using that cleanup_length [of env "\<lambda>d r. cb d None" 0 "-1" "fst cs" "snd cs" "fst cs1" "snd cs1"] Suc.hyps(2) by simp
  then show ?case using Suc.hyps(1) abort_cleanup_cong [of "-1" env cb 0]
    by (subst (1 2) abort_all.simps) (auto split: sum.split)
qed

lemma abort_cong:
  "https_client_cleanup env cb closing cs = https_client_cleanup env (\<lambda>d r. cb d None) closing cs"
  "https_client_reset env cb closing setopt_ok cs = https_client_reset env (\<lambda>d r. cb d None) closing setopt_ok cs"
  "https_client_fetch alloc env cb closing setopt_ok curl added url data tx_id d cs =
   https_client_fetch alloc env (\<lambda>d r. cb d None) closing setopt_ok curl added url data tx_id d cs"
proof -
  show 1: "https_client_cleanup env cb closing cs = https_client_cleanup env (\<lambda>d r. cb d None) closing cs" for cs
    by (simp add: https_client_cleanup_def abort_all_cong [of env cb])
  show 2: "https_client_reset env cb closing setopt_ok cs = https_client_reset env (\<lambda>d r. cb d None) closing setopt_ok cs" for cs
    by (simp add: https_client_reset_def 1 [of "(_, _)"] split: prod.split)
  show "https_client_fetch alloc env cb closing setopt_ok curl added url data tx_id d cs =
    https_client_fetch alloc env (\<lambda>d r. cb d None) closing setopt_ok curl added url data tx_id d cs"
    unfolding https_client_fetch_def https_fetch_ctx_init_def 2 [symmetric] abort_cleanup_cong [of "-1" env cb 0, simplified, symmetric]
    by simp
qed

section \<open>Every request is answered exactly once\<close>

text \<open>A callback that notes whom it was called for and with what.\<close>

definition note_reply :: "('d, ('d \<times> bytes option) list) resp_cb" where
  "note_reply d r = (\<lambda>(st, hist). Inr (st, hist @ [(d, r)]))"

definition accounted :: "'d multiset \<Rightarrow> 'd multiset \<Rightarrow> bool \<Rightarrow> ('d \<times> bytes option) list \<Rightarrow> bool" where
  "accounted started M b hist \<longleftrightarrow> M + mset (map fst hist) = started"

interpretation noting: abortable_handler note_reply "accounted started"
  by unfold_locales (auto simp: note_reply_def accounted_def)

end
