(* ===== verification/Https_Requests.thy ===== *)
theory Https_Requests
  imports Https_Transfers
begin

text \<open>
  The HTTPS client as a transition system over new requests, socket and timer events and resets, with
  the requests started so far and the replies given as history, and the client's properties.
\<close>

section \<open>Steps\<close>

type_synonym 'd https_state = "('d https_client \<times> ('d \<times> bytes option) list) \<times> 'd list"

inductive https_step :: "'d https_state \<Rightarrow> 'd https_state \<Rightarrow> bool" where
  fetch: "https_client_fetch alloc env note_reply closing setopt_ok curl added url data tx_id d cs = Inr cs' \<Longrightarrow>
    events_ok closing \<Longrightarrow> env_ok env \<Longrightarrow> https_step (cs, started) (cs', started @ [d])"
| sock: "client_sock_cb env note_reply events code msgs cs = Inr cs' \<Longrightarrow> events_ok events \<Longrightarrow> env_ok env \<Longrightarrow>
    https_step (cs, started) (cs', started)"
| timer: "client_timer_cb env note_reply events code msgs cs = Inr cs' \<Longrightarrow> events_ok events \<Longrightarrow> env_ok env \<Longrightarrow>
    https_step (cs, started) (cs', started)"
| reset: "reset_timer_cb env note_reply closing setopt_ok (hc_emit [Ev_expired Reset_timer] c, hist) = Inr cs' \<Longrightarrow>
    events_ok closing \<Longrightarrow> env_ok env \<Longrightarrow> https_step ((c, hist), started) (cs', started)"

definition https_start :: "'d https_state \<Rightarrow> bool" where
  "https_start st \<longleftrightarrow> (\<exists>setopt_ok opt stats. https_client_init setopt_ok opt stats = Inr (fst (fst st))) \<and>
     snd (fst st) = [] \<and> snd st = []"

text \<open>The requests started so far are those under way and those answered.\<close>

definition https_inv :: "'d https_state \<Rightarrow> bool" where
  "https_inv st \<longleftrightarrow> reply_handler.good (accounted (mset (snd st))) (fst (fst st)) (snd (fst st))"

lemma https_inv_iff:
  "https_inv ((c, hist), started) \<longleftrightarrow>
   https_ok c \<and> mset (map f_cb_data (hc_fetches c)) + mset (map fst hist) = mset started"
  by (simp add: https_inv_def noting.good_def accounted_def)

lemma https_init_ok: "https_client_init setopt_ok opt stats = Inr c \<Longrightarrow> https_ok c \<and> hc_fetches c = []"
  by (auto simp: https_client_init_def https_client_multi_init_def https_ok_def slots_ok_def ev_active_def)

lemma https_step_inv: "https_step st st' \<Longrightarrow> https_inv st \<Longrightarrow> https_inv st'"
proof (induction rule: https_step.induct)
  case (fetch alloc env closing setopt_ok curl added url data tx_id d cs cs' started)
  obtain c hist c' hist' where cs: "cs = (c, hist)" "cs' = (c', hist')" by fastforce
  have "https_ok c" "accounted (mset (started @ [d])) (add_mset d (mset (map f_cb_data (hc_fetches c)))) (hc_stat c \<noteq> None) hist"
    using fetch(4) by (auto simp: cs https_inv_iff accounted_def)
  from noting.fetch_good [OF fetch(1) [unfolded cs] this fetch(2,3)] show ?case by (simp add: cs https_inv_def)
next
  case (sock env events code msgs cs cs' started)
  then show ?case
    using noting.sock_cb_good [of env events code msgs "fst cs" "snd cs" "fst cs'" "snd cs'"] by (simp add: https_inv_def)
next
  case (timer env events code msgs cs cs' started)
  then show ?case
    using noting.timer_cb_good [of env events code msgs "fst cs" "snd cs" "fst cs'" "snd cs'"] by (simp add: https_inv_def)
next
  case (reset env closing setopt_ok c hist cs' started)
  have "https_inv ((hc_emit [Ev_expired Reset_timer] c, hist), started)"
    using reset(4) by (simp add: https_inv_iff https_ok_emit ev_active_append) (simp add: hc_emit_def)
  then show ?case
    using noting.client_reset_good [of env closing setopt_ok "hc_emit [Ev_expired Reset_timer] c" hist "fst cs'" "snd cs'"] reset(1-3)
    by (simp add: https_inv_def reset_timer_cb_def)
qed

interpretation https: invariant_system https_start https_step https_inv
proof unfold_locales
  show "https_inv st" if "https_start st" for st :: "'a https_state"
    using that https_init_ok by (cases st) (fastforce simp: https_start_def https_inv_iff)
qed (rule https_step_inv)

section \<open>Properties\<close>

text \<open>
  C8. No request is lost and none is answered twice: in every state the client reaches, the requests handed to
  it are, as a multiset, exactly those still under way together with those whose callback has been called;
  and shutting it down calls the callback of every request that is still under way.
\<close>

theorem https_callback_exactly_once:
  assumes "reach https_start https_step ((c, hist), started)"
  shows "mset started = mset (map f_cb_data (hc_fetches c)) + mset (map fst hist) \<and>
     (\<forall>env closing. env_ok env \<longrightarrow> (\<forall>h. ce_remove_ok env h) \<longrightarrow> events_ok closing \<longrightarrow>
        (\<exists>c' hist'. https_client_cleanup env note_reply closing (c, hist) = Inr (c', hist') \<and>
           hc_fetches c' = [] \<and> mset (map fst hist') = mset started))"
proof -
  have inv: "https_inv ((c, hist), started)" by (rule https.reach_inv [OF assms])
  have "\<exists>c' hist'. https_client_cleanup env note_reply closing (c, hist) = Inr (c', hist') \<and>
      hc_fetches c' = [] \<and> mset (map fst hist') = mset started"
    if asms: "env_ok env" "\<forall>h. ce_remove_ok env h" "events_ok closing" for env closing
  proof -
    obtain c' hist' where r: "https_client_cleanup env note_reply closing (c, hist) = Inr (c', hist')"
      using noting.client_cleanup_returns [OF _ asms] inv by (fastforce simp: https_inv_def)
    have "https_inv ((c', hist'), started) \<and> hc_fetches c' = []"
      using noting.client_cleanup_good [OF r _ asms(3,1)] inv by (simp add: https_inv_def)
    with r show ?thesis by (auto simp: https_inv_iff)
  qed
  with inv show ?thesis by (simp add: https_inv_iff)
qed

text \<open>
  C21. Limits of the client hold in every reachable state: at most twelve open connections, twelve slots of
  which libev watches exactly those in use and no socket twice, and every response buffer within 65535
  bytes, terminated, and allocated with the size it needs.
\<close>

theorem https_limits_hold:
  assumes "reach https_start https_step ((c, hist), started)"
  shows "hc_connections c \<le> 12 \<and> length (hc_io_events c) = 12 \<and>
     slots_ok Curl_io (hc_io_events c, hc_calls c) \<and>
     (\<forall>ctx \<in> set (hc_fetches c). length (received ctx) \<le> 65535 \<and>
        (\<forall>b. f_buf ctx = Some b \<longrightarrow> b = received ctx @ [0]))"
proof -
  have ok: "https_ok c" using https.reach_inv [OF assms] by (simp add: https_inv_iff)
  have "length (received ctx) \<le> 65535 \<and> (\<forall>b. f_buf ctx = Some b \<longrightarrow> b = received ctx @ [0])"
    if "buf_ok ctx" for ctx :: "'a fetch_ctx"
  proof -
    have "b = take (unat (f_buflen ctx)) b @ [0]" if "f_buf ctx = Some b" for b
      using \<open>buf_ok ctx\<close> that take_Suc_conv_app_nth [of "unat (f_buflen ctx)" b] by (simp add: buf_ok_def)
    then show ?thesis using that length_received [OF that] by (auto simp: buf_ok_def received_def DOH_MAX_RESPONSE_SIZE_def)
  qed
  with ok show ?thesis by (auto simp: https_ok_def HTTPS_SOCKET_LIMIT_def)
qed

text \<open>
  C9. A reply reaches the callback only when it is a valid DNS-over-HTTPS answer: if the end of a transfer hands
  over a body, the transfer succeeded with status 200, the content type (when it can be read) starts with
  application/dns-message, and the body is exactly what was received.
\<close>

theorem https_reply_is_valid:
  assumes "https_fetch_ctx_cleanup env note_reply i code (c, hist) = Inr (c', hist @ [(d, Some body)])" "env_ok env"
  shows "i < length (hc_fetches c) \<and> d = f_cb_data (hc_fetches c ! i) \<and> body = received (hc_fetches c ! i) \<and>
     code = CURLE_OK \<and> ti_response_code (ce_info env (f_curl (hc_fetches c ! i))) = Some 200 \<and>
     (case ti_content_type (ce_info env (f_curl (hc_fetches c ! i))) of
        None \<Rightarrow> True | Some ct \<Rightarrow> \<exists>t. ct = Some t \<and> take 23 t = ''application/dns-message'')"
  using assms(1)
proof (cases rule: cleanup_cases)
  case (1 c0 c1 f)
  let ?ctx = "hc_fetches c ! i" and ?ti = "ce_info env (f_curl (hc_fetches c ! i))"
  have f0: "hc_fetches c0 = hc_fetches c" using env_okD(3) [OF assms(2) 1(2)] .
  have body: "\<not> f" "map_option (take (unat (f_buflen ?ctx))) (f_buf ?ctx) = Some body" "d = f_cb_data ?ctx"
    using 1(4) by (auto simp: note_reply_def f0 split: if_splits)
  have "\<not> faulty_response ?ti code"
    using 1(3) body(1) by (auto simp: https_fetch_ctx_process_response_def Let_def f0)
  moreover have len: "length DOH_CONTENT_TYPE = 23" by (simp add: DOH_CONTENT_TYPE_def)
  ultimately have f: "code = CURLE_OK" "ti_response_code ?ti = Some 200"
      "case ti_content_type ?ti of None \<Rightarrow> True | Some ct \<Rightarrow> \<exists>t. ct = Some t \<and> take 23 t = ''application/dns-message''"
    unfolding faulty_response_def len by (auto simp: DOH_CONTENT_TYPE_def split: if_splits option.splits)
  have "body = received ?ctx" using body(2) by (auto simp: received_def split: option.splits)
  with 1(1) f body(3) show ?thesis by blast
qed

text \<open>
  C22. Receiving a response: pieces that curl delivers are put together in order as long as their total is at most
  65535 bytes, and a larger response is refused, without ever writing outside the buffer.
\<close>

theorem response_assembled_or_refused:
  assumes "f_buf ctx = None" "f_buflen ctx = 0" "\<forall>x \<in> set xs. x \<noteq> [] \<and> length x < 2 ^ 63" "\<And>n. malloc_ok me n"
  shows "\<exists>ctx'. write_all me xs ctx = Inr (length (concat xs) \<le> 65535, ctx') \<and> length (received ctx') \<le> 65535 \<and>
     (length (concat xs) \<le> 65535 \<longrightarrow> received ctx' = concat xs)"
proof -
  have ok: "buf_ok ctx" "received ctx = []" using assms(1,2) by (simp_all add: buf_ok_def received_def)
  obtain ctx' where c: "write_all me xs ctx = Inr (length (concat xs) \<le> 65535, ctx')" "buf_ok ctx'"
      "length (concat xs) \<le> 65535 \<longrightarrow> received ctx' = concat xs"
    using write_all_correct [OF ok(1) assms(3,4)] ok(2) by auto
  have "length (received ctx') \<le> 65535"
    using c(2) length_received [OF c(2)] by (simp add: buf_ok_def DOH_MAX_RESPONSE_SIZE_def)
  with c show ?thesis by blast
qed

text \<open>
  C23. The client follows the sockets of curl: after any sequence of socket callbacks that all report success,
  the active watchers of libev are, for each socket, one for exactly the events that curl asked for last, or
  none if curl removed the socket.
\<close>

theorem client_follows_sockets:
  assumes "https_ok c" "\<forall>(fd, ev) \<in> set es. fd \<noteq> 0" "client_sockets.watch_all es c = Some c'"
  shows "libev_watches Curl_io (hc_io_events c') (hc_calls c') fd =
     set_option (fold (\<lambda>(fd, ev) t. t(fd := ev)) es (watched (hc_io_events c)) fd)"
  using client_sockets.watch_all_table [OF assms] libev_watches_table by (metis https_ok_def)

section \<open>Debug output and messages\<close>

lemma debug_step_expire:
  "take 6 data = ''Expire'' \<Longrightarrow> fold (debug_step prefix data) ps (Some 0, out) = (Some 0, out)"
  by (induction ps) (auto simp: debug_step_def)

text \<open>
  C40. A debug text of curl that starts with an Expire line is dropped as a whole: the start of the line is not
  reset when the line is skipped, so every later line of the same text is taken for part of it and skipped too.
\<close>

theorem expire_line_hides_later_lines:
  assumes "take 6 (text_of data) = ''Expire''"
  shows "https_curl_debug INFO_TEXT data = []"
proof -
  let ?t = "text_of data"
  obtain rest where t: "?t = ''Expire'' @ rest" using assms by (metis append_take_drop_id)
  have "[0..<Suc (length ?t)] = 0 # [1..<Suc (length ?t)]" by (metis One_nat_def upt_conv_Cons zero_less_Suc)
  moreover have "debug_step ''* '' ?t 0 (None, []) = (Some 0, [])" by (simp add: debug_step_def t)
  ultimately have "fold (debug_step ''* '' ?t) [0..<Suc (length ?t)] (None, []) =
      fold (debug_step ''* '' ?t) [1..<Suc (length ?t)] (Some 0, [])"
    by (simp only: fold_simps)
  then show ?thesis
    using debug_step_expire [OF assms] by (simp only: https_curl_debug_def debug_lines_def curl_infotype.case snd_conv)
qed

lemma log_rows_shape:
  "length (log_rows prefix i data) = (length data + 15) div 16 \<and>
   (\<forall>k < length (log_rows prefix i data). log_rows prefix i data ! k = dump_line prefix (i + 16 * k) (take 16 (drop (16 * k) data)))"
proof (induction prefix i data rule: log_rows.induct)
  case (1 prefix i data)
  show ?case
  proof (cases "data = []")
    case True
    then show ?thesis by (simp add: log_rows.simps)
  next
    case False
    let ?tl = "log_rows prefix (i + 16) (drop 16 data)"
    have IH: "length ?tl = (length data - 16 + 15) div 16"
      "\<forall>k < length ?tl. ?tl ! k = dump_line prefix (i + 16 + 16 * k) (take 16 (drop (16 + 16 * k) data))"
      using 1 [OF False] by (simp_all add: add.commute)
    have rows: "log_rows prefix i data = dump_line prefix i (take 16 data) # ?tl"
      using False by (subst log_rows.simps) simp
    have "Suc ((n - 16 + 15) div 16) = (n + 15) div 16" if "0 < n" for n :: nat
    proof (cases "n \<le> 16")
      case True
      then have "(n + 15) div 16 = 1" using that by (intro div_nat_eqI) simp_all
      with True show ?thesis by simp
    next
      case False
      then obtain m where m: "n = m + 16" by (metis le_add_diff_inverse2 nat_le_linear)
      have "m + 16 + 15 = (m + 15) + 16" by simp
      then show ?thesis unfolding m by simp
    qed
    then have "Suc ((length data - 16 + 15) div 16) = (length data + 15) div 16" using False by blast
    moreover have "log_rows prefix i data ! k = dump_line prefix (i + 16 * k) (take 16 (drop (16 * k) data))"
      if "k < Suc (length ?tl)" for k
      using that IH(2) by (cases k) (simp_all add: rows add.assoc)
    ultimately show ?thesis using IH(1) by (simp add: rows)
  qed
qed

text \<open>
  With debug logging on, the DNS packets that go out and come in are dumped completely, sixteen bytes a line,
  in hex and as text, although the comment at that place says that they are not dumped because of privacy.
\<close>

theorem debug_dumps_dns_packets:
  "length (https_curl_debug INFO_DATA_OUT data) = (length data + 15) div 16 \<and>
   length (https_curl_debug INFO_DATA_IN data) = (length data + 15) div 16 \<and>
   (\<forall>k < (length data + 15) div 16.
      https_curl_debug INFO_DATA_OUT data ! k = dump_line ''> '' (16 * k) (take 16 (drop (16 * k) data)) \<and>
      https_curl_debug INFO_DATA_IN data ! k = dump_line ''< '' (16 * k) (take 16 (drop (16 * k) data)))"
  using log_rows_shape [of "''> ''" 0 data] log_rows_shape [of "''< ''" 0 data]
  by (simp add: https_curl_debug_def https_log_data_def)

text \<open>
  The warning about a resolver that may not support the protocol version names the wrong version: with the
  option for HTTP/1.1, where curl is asked for version 1.1, the message says 1.0, because the option's value
  is looked up as if it were curl's constant.
\<close>

theorem version_warning_says_1_0:
  assumes "use_http_version (hc_opt c) = 1" "ti_response_code ti = Some 0" "ti_uploaded ti = Some n" "0 < n"
  shows "version_note ti c = Inr ''1.0'' \<and> bind_res (https_set_request_version c) http_version_str = Inr ''1.1''"
  using assms by (simp add: version_note_def https_set_request_version_def http_version_str_def curl_consts Let_def)

section \<open>Witnesses\<close>

definition idle_client :: "'d https_client" where
  "idle_client = \<lparr>hc_fetches = [],
     hc_header_list = Some [''Accept: '' @ DOH_CONTENT_TYPE, ''Content-Type: '' @ DOH_CONTENT_TYPE],
     hc_io_events = replicate HTTPS_SOCKET_LIMIT \<lparr>io_fd = 0, io_read = False, io_write = False\<rparr>,
     hc_connections = 0, hc_opt = options_init, hc_stat = None, hc_calls = [Ev_set Reset_timer (of_int 15) 0]\<rparr>"

definition example_https :: "nat https_client" where
  "example_https = idle_client"

definition example_transfer :: "nat fetch_ctx" where
  "example_transfer = \<lparr>f_curl = 1, f_id = 77, f_cb_data = 5, f_buf = Some [1, 2, 3, 0], f_buflen = 3\<rparr>"

definition example_curl :: curl_env where
  "example_curl = \<lparr>ce_mem = \<lparr>malloc_ok = \<lambda>_. True, junk = \<lambda>_. 0\<rparr>, ce_debug = False, ce_remove_ok = \<lambda>_. True,
     ce_info = \<lambda>_. \<lparr>ti_response_code = Some 200, ti_uploaded = None, ti_content_type = Some (Some ''application/dns-message''),
                    ti_num_connects = None, ti_http_version = None\<rparr>,
     ce_removing = \<lambda>_. [Ev_socket 7 None], ce_adding = \<lambda>_. []\<rparr>"

lemma example_curl_ok: "env_ok example_curl"
  by (simp add: env_ok_def example_curl_def)

lemma idle_client_init: "https_client_init (\<lambda>_. True) options_init None = Inr idle_client"
  by (simp add: https_client_init_def https_client_multi_init_def multi_options_def idle_client_def options_init_def)

lemma example_https_init: "https_client_init (\<lambda>_. True) options_init None = Inr example_https"
  by (simp add: idle_client_init example_https_def)

lemma setopt_all: "assert_setopt (\<lambda>_. True) opts = Inr ()"
  by (induction opts) auto

lemma example_https_reached:
  "reach https_start https_step
     ((example_https\<lparr>hc_fetches := [\<lparr>f_curl = 1, f_id = 77, f_cb_data = 5, f_buf = None, f_buflen = 0\<rparr>]\<rparr>, []), [5])"
proof -
  have "https_start ((example_https, []), [])" unfolding https_start_def using example_https_init by auto
  then have "reach https_start https_step ((example_https, []), [])" by (rule reach_init)
  moreover have "https_client_fetch True example_curl note_reply [] (\<lambda>_. True) 1 CURLM_OK ''https://dns.google/dns-query'' [1, 2] 77 5
      (example_https, []) =
      Inr (example_https\<lparr>hc_fetches := [\<lparr>f_curl = 1, f_id = 77, f_cb_data = 5, f_buf = None, f_buflen = 0\<rparr>]\<rparr>, [])"
    by (simp add: https_client_fetch_def https_fetch_ctx_init_def setopt_all https_set_request_version_def example_https_def idle_client_def
        options_init_def DEFAULT_HTTP_VERSION_def Let_def example_curl_def)
  then have "https_step ((example_https, []), [])
      ((example_https\<lparr>hc_fetches := [\<lparr>f_curl = 1, f_id = 77, f_cb_data = 5, f_buf = None, f_buflen = 0\<rparr>]\<rparr>, []), [] @ [5])"
    by (rule https_step.fetch) (simp_all add: example_curl_ok)
  ultimately show ?thesis by (auto intro: reach_step)
qed

theorem https_callback_exactly_once_witness:
  "mset [5 :: nat] = mset (map f_cb_data (hc_fetches (example_https\<lparr>hc_fetches :=
     [\<lparr>f_curl = 1, f_id = 77, f_cb_data = 5, f_buf = None, f_buflen = 0\<rparr>]\<rparr>))) + mset (map fst ([] :: (nat \<times> bytes option) list))"
  using https_callback_exactly_once [OF example_https_reached] by blast

theorem https_limits_hold_witness:
  "hc_connections example_https \<le> 12 \<and> length (hc_io_events example_https) = 12"
  using https_limits_hold [OF example_https_reached] by simp

theorem https_reply_is_valid_witness:
  "\<exists>c'. https_fetch_ctx_cleanup example_curl note_reply 0 0 (example_https\<lparr>hc_fetches := [example_transfer]\<rparr>, []) =
      Inr (c', [(5, Some [1, 2, 3])]) \<and> [1, 2, 3] = received example_transfer"
proof -
  obtain c' where c': "https_fetch_ctx_cleanup example_curl note_reply 0 0 (example_https\<lparr>hc_fetches := [example_transfer]\<rparr>, []) =
      Inr (c', [] @ [(5, Some [1, 2, 3])])"
    by (simp add: https_fetch_ctx_cleanup_def example_curl_def example_transfer_def https_fetch_ctx_process_response_def
        note_timeout_def version_note_def count_reuse_def version_debug_def faulty_response_def note_reply_def curl_consts
        DOH_CONTENT_TYPE_def example_https_def idle_client_def)
  with https_reply_is_valid [OF c' example_curl_ok] show ?thesis by auto
qed

theorem response_assembled_or_refused_witness:
  "\<exists>ctx'. write_all (ce_mem example_curl) [[1, 2], [3]] (example_transfer\<lparr>f_buf := None, f_buflen := 0\<rparr>) = Inr (True, ctx') \<and>
     received ctx' = [1, 2, 3]"
  using response_assembled_or_refused [of "example_transfer\<lparr>f_buf := None, f_buflen := 0\<rparr>" "[[1, 2], [3]]" "ce_mem example_curl"]
  by (auto simp: example_curl_def simp del: write_all.simps)

theorem client_follows_sockets_witness:
  "\<exists>c'. client_sockets.watch_all [(7, Some (True, False)), (7, Some (True, True))] example_https = Some c' \<and>
     libev_watches Curl_io (hc_io_events c') (hc_calls c') 7 = {(True, True)}"
proof -
  have ok: "https_ok example_https" using https_init_ok [OF example_https_init] by simp
  obtain c' where c': "client_sockets.watch_all [(7, Some (True, False)), (7, Some (True, True))] example_https = Some c'"
    by (simp add: client_watch_def multi_sock_cb_def release_slot_def reserve_slot_def example_https_def idle_client_def HTTPS_SOCKET_LIMIT_def
        numeral_eq_Suc)
  with client_follows_sockets [OF ok _ c', of 7] show ?thesis by simp
qed

theorem expire_line_hides_later_lines_witness:
  "https_curl_debug INFO_TEXT [69, 120, 112, 105, 114, 101, 32, 49, 10, 67, 111, 110, 110, 101, 99, 116, 101, 100, 10] = []"
proof (rule expire_line_hides_later_lines)
  show "take 6 (text_of [69, 120, 112, 105, 114, 101, 32, 49, 10, 67, 111, 110, 110, 101, 99, 116, 101, 100, 10]) = ''Expire''"
    by code_simp
qed

theorem debug_dumps_dns_packets_witness:
  "length (https_curl_debug INFO_DATA_OUT (replicate 40 7)) = 3"
  using debug_dumps_dns_packets [of "replicate 40 7"] by simp

theorem version_warning_says_1_0_witness:
  "version_note \<lparr>ti_response_code = Some 0, ti_uploaded = Some 40, ti_content_type = None, ti_num_connects = None,
     ti_http_version = None\<rparr> (example_https\<lparr>hc_opt := options_init\<lparr>use_http_version := 1\<rparr>\<rparr>) = Inr ''1.0''"
  using version_warning_says_1_0 [of "example_https\<lparr>hc_opt := options_init\<lparr>use_http_version := 1\<rparr>\<rparr>"
      "\<lparr>ti_response_code = Some 0, ti_uploaded = Some 40, ti_content_type = None, ti_num_connects = None, ti_http_version = None\<rparr>" 40]
  by simp

end
