(* ===== verification/Proxy_Main.thy ===== *)
theory Proxy_Main
  imports Addr_List Tcp_Server Dns_Poller Https_Requests Logging
begin

text \<open>
  The main program, src/src/main.c: the callbacks that connect the DNS servers, the HTTPS client and the
  bootstrap poller, and the small functions of the start-up. Parameters stand for the URL parser of curl,
  the functions of the C library that convert addresses, and the results of system calls.
\<close>

section \<open>Small functions\<close>

text \<open>\<open>pton\<close> is \<open>inet_pton(AF_INET, ...)\<close>.\<close>

definition is_ipv4_address :: "(string \<Rightarrow> int) \<Rightarrow> string \<Rightarrow> bool" where
  "is_ipv4_address pton str \<longleftrightarrow> pton str = 1"

text \<open>
  \<open>url_host\<close> is the host that curl finds in a URL, \<open>None\<close> when one of its calls fails. The last character
  of the host is read also when the host is empty.
\<close>

definition hostname_from_url ::
  "(string \<Rightarrow> string option) \<Rightarrow> (string \<Rightarrow> int) \<Rightarrow> string \<Rightarrow> nat \<Rightarrow> string option res" where
  "hostname_from_url url_host pton url_in hostname_len =
     (case url_host url_in of
        None \<Rightarrow> Inr None
      | Some host \<Rightarrow>
          if \<not> (hostname_len > 0 \<and> length host < hostname_len) then Inr None
          else if host = [] then Inl Undef
          else if hd host \<noteq> CHR ''['' \<and> last host \<noteq> CHR '']'' \<and> \<not> is_ipv4_address pton host
          then Inr (Some (take (hostname_len - 1) host))
          else Inr None)"

definition tolower :: "char \<Rightarrow> char" where
  "tolower c = (let n = of_char c :: nat in if 65 \<le> n \<and> n \<le> 90 then char_of (n + 32) else c)"

definition proxy_supports_name_resolution :: "string option \<Rightarrow> bool" where
  "proxy_supports_name_resolution proxy =
     (case proxy of
        None \<Rightarrow> False
      | Some p \<Rightarrow> list_ex (\<lambda>t. map tolower (take (length t) p) = t) [''http:'', ''https:'', ''socks4a:'', ''socks5h:''])"

text \<open>\<open>ai\<close> is what \<open>getaddrinfo\<close> finds: the family and the socket address.\<close>

definition get_listen_address :: "(string \<Rightarrow> (family \<times> bytes) option) \<Rightarrow> string \<Rightarrow> (family \<times> bytes) res" where
  "get_listen_address getaddrinfo addr = (case getaddrinfo addr of None \<Rightarrow> Inl Fatal | Some ai \<Rightarrow> Inr ai)"

definition sw_version :: "string option \<Rightarrow> string" where
  "sw_version defined = (case defined of Some v \<Rightarrow> v | None \<Rightarrow> ''2025.8.26-atLeast'')"

section \<open>State\<close>

record request =
  rq_is_tcp :: bool
  rq_dns_req :: bytes
  rq_stat :: bool
  rq_start_tstamp :: ev_tstamp
  rq_tx_id :: u16
  rq_raddr :: bytes

text \<open>
  The callback's data is a pointer to a request. \<open>app_resolv\<close> is the list given to curl, which has one entry
  or none; \<open>app_ready\<close> counts the notifications of systemd. \<open>app->stat\<close> and \<open>req->stat\<close> point to the object that
  the client has too, if they are set: the object is \<open>hc_stat\<close> of the client, and \<open>rq_stat\<close> says whether the
  pointer of the request is set. \<open>req->dns_server\<close> is the UDP or the TCP server of the program, by \<open>rq_is_tcp\<close>.
\<close>

record app_state =
  app_https_client :: "request option https_client"
  app_resolv :: "string option"
  app_resolver_url :: string
  app_using_dns_poller :: bool
  app_addrlen :: nat
  app_called_once :: bool
  app_ready :: nat

record servers =
  sv_udp :: dns_server
  sv_tcp :: "dns_server_tcp option"

text \<open>What the callbacks get from outside; the results of \<open>send\<close> may depend on everything sent before.\<close>

record 'r resp_env =
  re_ares :: "'r ares"
  re_now :: ev_tstamp
  re_prefix :: "call list \<Rightarrow> send_result"
  re_send :: "call list \<Rightarrow> nat \<Rightarrow> send_result"

record fetch_env =
  fe_alloc :: bool
  fe_ctx_alloc :: bool
  fe_curl :: curl_env
  fe_closing :: "curl_event list"
  fe_setopt :: "string \<Rightarrow> bool"
  fe_handle :: "nat list \<Rightarrow> nat"
  fe_added :: "nat \<Rightarrow> curlm_code"
  fe_now :: ev_tstamp

section \<open>Callbacks\<close>

text \<open>Handing a response to the server that the request came from.\<close>

definition forward_response :: "'r resp_env \<Rightarrow> request \<Rightarrow> bytes \<Rightarrow> servers \<Rightarrow> servers res" where
  "forward_response re req buf sv =
     (if rq_is_tcp req
      then (case sv_tcp sv of
              None \<Rightarrow> Inl Undef
            | Some d \<Rightarrow>
                bind_res (returned (dns_server_tcp_respond (re_prefix re (d_calls d)) (re_send re (d_calls d)) (rq_raddr req) buf d))
                  (\<lambda>d'. Inr (sv\<lparr>sv_tcp := Some d'\<rparr>)))
      else (case dns_server_respond (re_ares re) (rq_raddr req) (rq_dns_req req) buf (sv_udp sv) of
              None \<Rightarrow> Inl Hung
            | Some d' \<Rightarrow> Inr (sv\<lparr>sv_udp := d'\<rparr>)))"

definition https_resp_cb :: "'r resp_env \<Rightarrow> (request option, servers) resp_cb" where
  "https_resp_cb re data buf = (\<lambda>(st, sv).
     case data of
       None \<Rightarrow> Inl Fatal
     | Some req \<Rightarrow>
         (case buf of
            None \<Rightarrow> Inr (st, sv)
          | Some b \<Rightarrow>
              if length b < DNS_HEADER_LENGTH then Inr (st, sv)
              else if rq_tx_id req \<noteq> ntohs (b ! 0) (b ! 1) then Inr (st, sv)
              else
                bind_res (forward_response re req b sv) (\<lambda>sv'.
                  if rq_stat req
                  then (case st of
                          None \<Rightarrow> Inl Undef
                        | Some s \<Rightarrow>
                            bind_res (stat_request_end (word_of_nat (length b)) (re_now re - rq_start_tstamp req) (rq_is_tcp req) s)
                              (\<lambda>s'. Inr (Some s', sv')))
                  else Inr (st, sv'))))"

text \<open>The request that is remembered until the response arrives.\<close>

definition new_request :: "fetch_env \<Rightarrow> bool \<Rightarrow> bytes \<Rightarrow> bytes \<Rightarrow> app_state \<Rightarrow> request" where
  "new_request fe is_tcp tmp_remote_addr dns_req app =
     (let stats = (hc_stat (app_https_client app) \<noteq> None)
      in \<lparr>rq_is_tcp = is_tcp, rq_dns_req = dns_req, rq_stat = stats,
          rq_start_tstamp = (if stats then fe_now fe else 0), rq_tx_id = ntohs (dns_req ! 0) (dns_req ! 1),
          rq_raddr = take (app_addrlen app) tmp_remote_addr\<rparr>)"

definition dns_server_cb :: "fetch_env \<Rightarrow> 'r resp_env \<Rightarrow> (app_state \<times> servers) req_cb" where
  "dns_server_cb fe re is_tcp tmp_remote_addr dns_req = (\<lambda>(app, sv).
     if length dns_req < 2 then Inl Undef
     else
       (if app_using_dns_poller app \<and> app_resolv app = None then Inr (app, sv)
        else if \<not> fe_alloc fe then Inl Fatal
        else
          (let c = app_https_client app;
               req = new_request fe is_tcp tmp_remote_addr dns_req app;
               c1 = c\<lparr>hc_stat := map_option (stat_request_begin (word_of_nat (length dns_req)) is_tcp) (hc_stat c)\<rparr>;
               handle = fe_handle fe (map f_curl (hc_fetches c))
           in bind_res (https_client_fetch (fe_ctx_alloc fe) (fe_curl fe) (https_resp_cb re) (fe_closing fe) (fe_setopt fe)
                          handle (fe_added fe handle) (app_resolver_url app) dns_req (rq_tx_id req) (Some req) (c1, sv))
                (\<lambda>(c', sv'). Inr (app\<lparr>app_https_client := c'\<rparr>, sv')))))"

text \<open>A call that returns: the request was discarded, or handed to the client.\<close>

lemma dns_server_cb_cases:
  assumes "dns_server_cb fe re is_tcp raddr dns_req (app, sv) = Inr (app', sv')"
  obtains (discarded) "app_using_dns_poller app" "app_resolv app = None" "app' = app" "sv' = sv"
    | (fetched) c' where "2 \<le> length dns_req" "app' = app\<lparr>app_https_client := c'\<rparr>"
      "https_client_fetch (fe_ctx_alloc fe) (fe_curl fe) (https_resp_cb re) (fe_closing fe) (fe_setopt fe)
         (fe_handle fe (map f_curl (hc_fetches (app_https_client app))))
         (fe_added fe (fe_handle fe (map f_curl (hc_fetches (app_https_client app))))) (app_resolver_url app) dns_req
         (rq_tx_id (new_request fe is_tcp raddr dns_req app)) (Some (new_request fe is_tcp raddr dns_req app))
         ((app_https_client app)\<lparr>hc_stat := map_option (stat_request_begin (word_of_nat (length dns_req)) is_tcp)
            (hc_stat (app_https_client app))\<rparr>, sv) = Inr (c', sv')"
proof (cases "length dns_req < 2")
  case True
  with assms show thesis by (simp add: dns_server_cb_def)
next
  case len: False
  show thesis
  proof (cases "app_using_dns_poller app \<and> app_resolv app = None")
    case True
    with len assms have "app' = app" "sv' = sv" by (simp_all add: dns_server_cb_def)
    with True show thesis using discarded by blast
  next
    case no: False
    have alloc: "fe_alloc fe" using assms len no by (cases "fe_alloc fe") (simp_all only: dns_server_cb_def prod.case if_False if_True simp_thms sum.distinct)
    let ?fetch = "https_client_fetch (fe_ctx_alloc fe) (fe_curl fe) (https_resp_cb re) (fe_closing fe) (fe_setopt fe)
         (fe_handle fe (map f_curl (hc_fetches (app_https_client app))))
         (fe_added fe (fe_handle fe (map f_curl (hc_fetches (app_https_client app))))) (app_resolver_url app) dns_req
         (rq_tx_id (new_request fe is_tcp raddr dns_req app)) (Some (new_request fe is_tcp raddr dns_req app))
         ((app_https_client app)\<lparr>hc_stat := map_option (stat_request_begin (word_of_nat (length dns_req)) is_tcp)
            (hc_stat (app_https_client app))\<rparr>, sv)"
    have "bind_res ?fetch (\<lambda>(c', sv'). Inr (app\<lparr>app_https_client := c'\<rparr>, sv')) = Inr (app', sv')"
      using assms len no alloc by (simp only: dns_server_cb_def prod.case if_False if_True simp_thms Let_def)
    then obtain cs where cs: "?fetch = Inr cs" "(case cs of (c', sv') \<Rightarrow> Inr (app\<lparr>app_https_client := c'\<rparr>, sv')) = (Inr (app', sv') :: (app_state \<times> servers) res)"
      unfolding bind_res_Inr_iff by blast
    obtain c' s2 where c': "cs = (c', s2)" by (cases cs)
    then have "app' = app\<lparr>app_https_client := c'\<rparr>" "s2 = sv'" using cs(2) by (simp_all only: prod.case sum.inject prod.inject)
    with cs(1) c' len show thesis using fetched [of c'] by (metis linorder_not_less)
  qed
qed

text \<open>\<open>has_libsystemd\<close> says whether the program is built with libsystemd.\<close>

definition systemd_notify_ready :: "bool \<Rightarrow> app_state \<Rightarrow> app_state" where
  "systemd_notify_ready has_libsystemd app =
     (if \<not> has_libsystemd then app
      else if app_called_once app then app
      else app\<lparr>app_called_once := True, app_ready := Suc (app_ready app)\<rparr>)"

text \<open>
  The text of the new entry: \<open>snprintf\<close> with the sizes of the code, whose buffer has room for a name of 254
  characters and a complete address list.
\<close>

definition RESOLV_BUF_SIZE :: nat where "RESOLV_BUF_SIZE = 255 + 5 + POLLER_ADDR_LIST_SIZE"

definition resolv_entry :: "string \<Rightarrow> string \<Rightarrow> string" where
  "resolv_entry hostname addr_list =
     (let prefix = take (RESOLV_BUF_SIZE - 2) (hostname @ '':443:'')
      in prefix @ take (RESOLV_BUF_SIZE - 1 - length (hostname @ '':443:'') - 1) addr_list)"

record poll_env =
  pl_systemd :: bool
  pl_append_ok :: bool
  pl_curl :: curl_env
  pl_closing :: "curl_event list"
  pl_setopt :: "string \<Rightarrow> bool"

definition dns_poll_cb :: "poll_env \<Rightarrow> 'r resp_env \<Rightarrow> string \<Rightarrow> (app_state \<times> servers) addr_cb" where
  "dns_poll_cb pl re hostname addr_list = (\<lambda>(app, sv).
     if length hostname > 254 then Inl Fatal
     else
       (case addr_list of
          None \<Rightarrow> Inl Undef
        | Some new_list \<Rightarrow>
            (let app1 = (if app_resolv app = None then systemd_notify_ready (pl_systemd pl) app else app);
                 unchanged = (case app_resolv app1 of
                                None \<Rightarrow> False
                              | Some entry \<Rightarrow>
                                  (case strstr entry '':443:'' of
                                     None \<Rightarrow> False
                                   | Some k \<Rightarrow> \<not> addr_list_reduced new_list (drop (k + 5) entry)))
             in if unchanged then Inr (app1, sv)
                else
                  (let app2 = app1\<lparr>app_resolv := (if pl_append_ok pl then Some (resolv_entry hostname new_list) else None)\<rparr>
                   in bind_res (https_client_reset (pl_curl pl) (https_resp_cb re) (pl_closing pl) (pl_setopt pl)
                                  (app_https_client app2, sv))
                        (\<lambda>(c', sv'). Inr (app2\<lparr>app_https_client := c'\<rparr>, sv'))))))"

section \<open>Bootstrapping and requests\<close>

text \<open>The response callback for aborted requests: it leaves the servers alone and returns.\<close>

definition requests_only :: "servers \<Rightarrow> request option multiset \<Rightarrow> bool \<Rightarrow> servers \<Rightarrow> bool" where
  "requests_only sv0 M b sv \<longleftrightarrow> sv = sv0 \<and> None \<notin># M"

interpretation aborting: abortable_handler "\<lambda>d r. https_resp_cb re d None" "requests_only sv0" for re sv0
  by unfold_locales (auto simp: requests_only_def https_resp_cb_def split: option.splits, metis not_None_eq)

definition proxy_client_ok :: "app_state \<Rightarrow> bool" where
  "proxy_client_ok app \<longleftrightarrow> https_ok (app_https_client app) \<and> None \<notin> f_cb_data ` set (hc_fetches (app_https_client app))"

lemma aborting_good:
  "reply_handler.good (requests_only sv0) c sv \<longleftrightarrow> https_ok c \<and> sv = sv0 \<and> None \<notin> f_cb_data ` set (hc_fetches c)"
  by (auto simp: aborting.good_def requests_only_def)

text \<open>What the calls into curl are expected to give.\<close>

definition curl_works :: "curl_env \<Rightarrow> curl_event list \<Rightarrow> (string \<Rightarrow> bool) \<Rightarrow> bool" where
  "curl_works env closing setopt_ok \<longleftrightarrow> env_ok env \<and> (\<forall>h. ce_remove_ok env h) \<and> events_ok closing \<and> (\<forall>n. setopt_ok n)"

lemma reset_without_responses:
  assumes "proxy_client_ok app" "curl_works env closing setopt_ok"
  shows "\<exists>c'. https_client_reset env (https_resp_cb re) closing setopt_ok (app_https_client app, sv) = Inr (c', sv) \<and>
     https_ok c' \<and> hc_fetches c' = []"
proof -
  have g: "reply_handler.good (requests_only sv) (app_https_client app) sv"
    using assms(1) by (simp add: aborting_good proxy_client_ok_def)
  obtain c' sv' where r: "https_client_reset env (\<lambda>d r. https_resp_cb re d None) closing setopt_ok (app_https_client app, sv) = Inr (c', sv')"
    using aborting.client_reset_returns [OF g, of env closing setopt_ok re] assms(2) by (auto simp: curl_works_def)
  with aborting.client_reset_good [OF r g] assms(2) show ?thesis
    by (auto simp: curl_works_def aborting_good abort_cong(2) [of env "https_resp_cb re"])
qed

lemma strstr_entry:
  assumes "CHR '':'' \<notin> set hostname"
  shows "strstr (hostname @ '':443:'' @ rest) '':443:'' = Some (length hostname)"
proof -
  have "take 5 (drop j (hostname @ '':443:'' @ rest)) \<noteq> '':443:''" if "j < length hostname" for j
  proof -
    have "hd (drop j (hostname @ '':443:'' @ rest)) = hostname ! j" "drop j (hostname @ '':443:'' @ rest) \<noteq> []"
      using that by (simp_all add: hd_drop_conv_nth nth_append)
    moreover have "hostname ! j \<noteq> CHR '':''" using assms nth_mem [OF that] by metis
    ultimately show ?thesis by (metis hd_take list.sel(1) zero_less_numeral)
  qed
  then show ?thesis by (simp add: strstr_Some_iff numeral_eq_Suc)
qed

lemma resolv_entry_fits:
  "length hostname \<le> 254 \<Longrightarrow> length addrs \<le> 1023 \<Longrightarrow> resolv_entry hostname addrs = hostname @ '':443:'' @ addrs"
  by (simp add: resolv_entry_def RESOLV_BUF_SIZE_def POLLER_ADDR_LIST_SIZE_def)

text \<open>
  C15. A new address list from the bootstrap poller. When every address in use has fewer than 50 characters and
  is, of the entries of the new list that contain its text, the first, nothing at all changes. Otherwise the
  entry for curl becomes host name, port and exactly the new list, and the client is reset, which ends every
  transfer that was under way; nothing else changes. No answer is sent in either case.
\<close>

theorem poll_keeps_or_replaces_addresses:
  assumes "proxy_client_ok app" "curl_works (pl_curl pl) (pl_closing pl) (pl_setopt pl)" "pl_append_ok pl"
    and "length hostname \<le> 254" "CHR '':'' \<notin> set hostname" "length new \<le> 1023"
    and "app_resolv app = Some (hostname @ '':443:'' @ old)" "[] \<notin> set (entries old)"
  shows "\<exists>app'. dns_poll_cb pl re hostname (Some new) (app, sv) = Inr (app', sv) \<and>
     (if \<forall>f \<in> set (entries old). length f < 50 \<and> find (sublist f) (entries new) = Some f then app' = app
      else \<exists>c'. app' = app\<lparr>app_resolv := Some (hostname @ '':443:'' @ new), app_https_client := c'\<rparr> \<and> hc_fetches c' = [])"
proof (cases "addr_list_reduced new old")
  case False
  then have "\<forall>f \<in> set (entries old). length f < 50 \<and> find (sublist f) (entries new) = Some f"
    using addr_list_reduced_eq [OF assms(8)] by (simp add: still_listed_def)
  moreover have "dns_poll_cb pl re hostname (Some new) (app, sv) = Inr (app, sv)"
    using False assms(4) strstr_entry [OF assms(5), of old] by (simp add: dns_poll_cb_def assms(7) Let_def)
  ultimately show ?thesis by simp
next
  case True
  then have lost: "\<not> (\<forall>f \<in> set (entries old). length f < 50 \<and> find (sublist f) (entries new) = Some f)"
    using addr_list_reduced_eq [OF assms(8), of new] by (simp add: still_listed_def)
  have "proxy_client_ok (app\<lparr>app_resolv := Some (resolv_entry hostname new)\<rparr>)" using assms(1) by (simp add: proxy_client_ok_def)
  then obtain c' where c': "https_client_reset (pl_curl pl) (https_resp_cb re) (pl_closing pl) (pl_setopt pl)
      (app_https_client app, sv) = Inr (c', sv)" "hc_fetches c' = []"
    using reset_without_responses [OF _ assms(2), of "app\<lparr>app_resolv := Some (resolv_entry hostname new)\<rparr>" re sv] by auto
  then have "dns_poll_cb pl re hostname (Some new) (app, sv) =
      Inr (app\<lparr>app_resolv := Some (hostname @ '':443:'' @ new), app_https_client := c'\<rparr>, sv)"
    using True assms(3,4) strstr_entry [OF assms(5), of old] resolv_entry_fits [OF assms(4,6)]
    by (simp add: dns_poll_cb_def assms(7) Let_def)
  with lost c'(2) show ?thesis by (simp only: if_False) blast
qed

lemma requests_only_add:
  "requests_only sv (add_mset (Some q) (mset (map f_cb_data (hc_fetches c)))) b sv \<longleftrightarrow> None \<notin> f_cb_data ` set (hc_fetches c)"
  by (auto simp: requests_only_def)

text \<open>
  C14. A request from a DNS client: before the resolver's address is known it is discarded and nothing changes.
  Otherwise it is handed to the HTTPS client, and when curl takes it there is one more transfer, which
  carries the request, its id and its sender; when curl does not, nothing is answered.
\<close>

theorem request_accepted_or_discarded:
  assumes "proxy_client_ok app" "curl_works (fe_curl fe) (fe_closing fe) (fe_setopt fe)" "fe_alloc fe" "fe_ctx_alloc fe"
    and "use_http_version (hc_opt (app_https_client app)) \<in> {1, 2, 3}" "2 \<le> length dns_req"
  shows "\<exists>app'. dns_server_cb fe re is_tcp raddr dns_req (app, sv) = Inr (app', sv) \<and>
     (if app_using_dns_poller app \<and> app_resolv app = None then app' = app
      else fe_added fe (fe_handle fe (map f_curl (hc_fetches (app_https_client app)))) = CURLM_OK \<longrightarrow>
        (\<exists>x. hc_fetches (app_https_client app') = x # hc_fetches (app_https_client app) \<and>
           f_id x = ntohs (dns_req ! 0) (dns_req ! 1) \<and>
           f_cb_data x = Some (new_request fe is_tcp raddr dns_req app)))"
proof (cases "app_using_dns_poller app \<and> app_resolv app = None")
  case True
  with assms(6) show ?thesis by (auto simp: dns_server_cb_def)
next
  case False
  let ?c = "app_https_client app" and ?q = "new_request fe is_tcp raddr dns_req app"
  let ?h = "fe_handle fe (map f_curl (hc_fetches ?c))"
  define c1 where "c1 = ?c\<lparr>hc_stat := map_option (stat_request_begin (word_of_nat (length dns_req)) is_tcp) (hc_stat ?c)\<rparr>"
  have c1: "https_ok c1" "hc_fetches c1 = hc_fetches ?c" "hc_opt c1 = hc_opt ?c"
    using assms(1) by (simp_all add: c1_def proxy_client_ok_def https_ok_def)
  have inv: "requests_only sv (add_mset (Some ?q) (mset (map f_cb_data (hc_fetches c1)))) (hc_stat c1 \<noteq> None) sv"
    using assms(1) unfolding requests_only_add c1(2) by (simp add: proxy_client_ok_def)
  have works: "env_ok (fe_curl fe)" "\<forall>h. ce_remove_ok (fe_curl fe) h" "events_ok (fe_closing fe)" "\<forall>n. fe_setopt fe n"
    and v: "use_http_version (hc_opt c1) \<in> {1, 2, 3}"
    using assms(2,5) c1(3) by (simp_all add: curl_works_def)
  let ?fetch = "\<lambda>cb. https_client_fetch True (fe_curl fe) cb (fe_closing fe) (fe_setopt fe) ?h (fe_added fe ?h)
      (app_resolver_url app) dns_req (rq_tx_id ?q) (Some ?q) (c1, sv)"
  obtain c' sv' where f: "?fetch (\<lambda>d r. https_resp_cb re d None) = Inr (c', sv')"
      "fe_added fe ?h = CURLM_OK \<longrightarrow> sv' = sv \<and>
        hc_fetches c' = \<lparr>f_curl = ?h, f_id = rq_tx_id ?q, f_cb_data = Some ?q, f_buf = None, f_buflen = 0\<rparr> # hc_fetches c1"
    using aborting.fetch_returns [OF c1(1) inv works v] by blast
  have "sv' = sv" using aborting.fetch_good [OF f(1) c1(1) inv works(3,1)] by (simp add: aborting_good)
  with f abort_cong(3) [of True "fe_curl fe" "https_resp_cb re"] have "?fetch (https_resp_cb re) = Inr (c', sv)" by metis
  then have "dns_server_cb fe re is_tcp raddr dns_req (app, sv) = Inr (app\<lparr>app_https_client := c'\<rparr>, sv)"
    using False assms(3,4,6) by (auto simp: dns_server_cb_def Let_def c1_def)
  with f(2) False c1(2) show ?thesis by (auto simp: new_request_def Let_def)
qed

section \<open>Witnesses\<close>

definition example_app :: app_state where
  "example_app = \<lparr>app_https_client = idle_client, app_resolv = Some ''dns.google:443:8.8.8.8,8.8.4.4'',
     app_resolver_url = ''https://dns.google/dns-query'', app_using_dns_poller = True, app_addrlen = 16,
     app_called_once = False, app_ready = 0\<rparr>"

definition example_fetch :: fetch_env where
  "example_fetch = \<lparr>fe_alloc = True, fe_ctx_alloc = True, fe_curl = example_curl, fe_closing = [], fe_setopt = \<lambda>_. True,
     fe_handle = \<lambda>hs. Suc (sum_list hs), fe_added = \<lambda>_. CURLM_OK, fe_now = 100\<rparr>"

definition example_poll :: poll_env where
  "example_poll = \<lparr>pl_systemd = True, pl_append_ok = True, pl_curl = example_curl, pl_closing = [], pl_setopt = \<lambda>_. True\<rparr>"

definition example_query :: bytes where
  "example_query = [18, 52, 1, 0, 0, 1, 0, 0, 0, 0, 0, 0, 0]"

lemma example_curl_works: "curl_works example_curl [] (\<lambda>_. True)"
  using example_curl_ok by (simp add: curl_works_def) (simp add: example_curl_def)

lemma example_app_ok: "proxy_client_ok example_app"
  using https_init_ok [OF idle_client_init, where 'a = "request option"] by (simp add: proxy_client_ok_def example_app_def)

definition example_world :: "'r ares \<Rightarrow> 'r resp_env" where
  "example_world a = \<lparr>re_ares = a, re_now = 100, re_prefix = \<lambda>_. Sent 2, re_send = \<lambda>_ _. Sent 0\<rparr>"

definition example_servers :: servers where
  "example_servers = \<lparr>sv_udp = \<lparr>u_sock = 5, u_addrlen = 16, u_calls = [Ev_start Udp_watcher]\<rparr>, sv_tcp = None\<rparr>"

theorem poll_keeps_or_replaces_addresses_witness:
  "(\<exists>app'. dns_poll_cb example_poll (example_world example_ares) ''dns.google'' (Some ''8.8.4.4'') (example_app, example_servers) =
       Inr (app', example_servers) \<and> app_resolv app' = Some ''dns.google:443:8.8.4.4'') \<and>
   dns_poll_cb example_poll (example_world example_ares) ''dns.google'' (Some ''8.8.4.4,8.8.8.8'') (example_app, example_servers) =
     Inr (example_app, example_servers)"
proof -
  have old: "[] \<notin> set (entries ''8.8.8.8,8.8.4.4'')" by code_simp
  have lost: "\<not> (\<forall>f \<in> set (entries ''8.8.8.8,8.8.4.4''). length f < 50 \<and> find (sublist f) (entries ''8.8.4.4'') = Some f)"
    and kept: "\<forall>f \<in> set (entries ''8.8.8.8,8.8.4.4''). length f < 50 \<and> find (sublist f) (entries ''8.8.4.4,8.8.8.8'') = Some f"
    by code_simp+
  note poll = poll_keeps_or_replaces_addresses [of example_app example_poll "''dns.google''" _ "''8.8.8.8,8.8.4.4''"
      "example_world example_ares" example_servers]
  have app: "curl_works (pl_curl example_poll) (pl_closing example_poll) (pl_setopt example_poll)" "pl_append_ok example_poll"
      "app_resolv example_app = Some (''dns.google'' @ '':443:'' @ ''8.8.8.8,8.8.4.4'')"
    using example_curl_works by (simp_all add: example_poll_def example_app_def)
  have "\<exists>app'. dns_poll_cb example_poll (example_world example_ares) ''dns.google'' (Some ''8.8.4.4'') (example_app, example_servers) =
       Inr (app', example_servers) \<and> app_resolv app' = Some (''dns.google'' @ '':443:'' @ ''8.8.4.4'')"
    using poll [of "''8.8.4.4''", OF example_app_ok app(1,2) _ _ _ app(3) old] unfolding if_not_P [OF lost] by fastforce
  moreover have "dns_poll_cb example_poll (example_world example_ares) ''dns.google'' (Some ''8.8.4.4,8.8.8.8'') (example_app, example_servers) =
       Inr (example_app, example_servers)"
    using poll [of "''8.8.4.4,8.8.8.8''", OF example_app_ok app(1,2) _ _ _ app(3) old] unfolding if_P [OF kept] by simp
  ultimately show ?thesis by simp
qed

theorem request_accepted_or_discarded_witness:
  "\<exists>app' x. dns_server_cb example_fetch (example_world example_ares) False (replicate 16 7) example_query (example_app, example_servers) = Inr (app', example_servers) \<and>
     hc_fetches (app_https_client app') = [x] \<and> f_id x = 0x1234"
proof -
  have "use_http_version (hc_opt (app_https_client example_app)) \<in> {1, 2, 3}"
    by (simp add: example_app_def idle_client_def options_init_def DEFAULT_HTTP_VERSION_def)
  then obtain app' x where a: "dns_server_cb example_fetch (example_world example_ares) False (replicate 16 7) example_query (example_app, example_servers) = Inr (app', example_servers)"
      "hc_fetches (app_https_client app') = x # hc_fetches (app_https_client example_app)"
      "f_id x = ntohs (example_query ! 0) (example_query ! 1)"
    using request_accepted_or_discarded [of example_app example_fetch example_query "example_world example_ares" False "replicate 16 7" example_servers]
      example_app_ok example_curl_works by (auto simp: example_fetch_def example_app_def example_query_def)
  then show ?thesis by (auto simp: example_query_def ntohs_def example_app_def idle_client_def)
qed

end
