(* ===== verification/Proxy_Run.thy ===== *)
theory Proxy_Run
  imports Proxy_Main
begin

text \<open>
  The life of the program, \<open>main\<close> of src/src/main.c: from the command line to the running event loop, the
  events of the loop, and the shutdown. What the loop does between two callbacks is libev's; here each
  callback is a step of the whole program.
\<close>

section \<open>Start\<close>

text \<open>An exit code, or the options to run with.\<close>

definition main_options :: "opt_env \<Rightarrow> bool \<Rightarrow> (char \<times> string) list \<Rightarrow> int + options" where
  "main_options env curl_info args =
     (case options_parse_args env args options_init of
        (OPR_SUCCESS, opt) \<Rightarrow> Inr opt
      | (OPR_HELP, opt) \<Rightarrow> Inl 0
      | (OPR_VERSION, opt) \<Rightarrow> Inl (if curl_info then 0 else 1)
      | (OPR_PARSING_ERROR, opt) \<Rightarrow> Inl 1
      | (OPR_OPTION_ERROR, opt) \<Rightarrow> Inl 1)"

text \<open>
  System calls whose order matters. The start-up passes on the list of those made so far, oldest first, and
  the outcome of each may depend on it: binding a port below 1024 or changing the group, for example, is not
  permitted any more once the user has been dropped.
\<close>

datatype sys_call = Bind_udp bytes | Bind_tcp bytes | Setgroups u32 | Setgid u32 | Setuid u32 | Daemon

fun attempt :: "(sys_call list \<Rightarrow> sys_call \<Rightarrow> bool) \<Rightarrow> sys_call list \<Rightarrow> sys_call list \<Rightarrow> sys_call list res" where
  "attempt sys_ok [] sys = Inr sys"
| "attempt sys_ok (c # cs) sys = (if sys_ok sys c then attempt sys_ok cs (sys @ [c]) else Inl Fatal)"

definition drop_privileges :: "options \<Rightarrow> sys_call list" where
  "drop_privileges opt =
     (if opt_gid opt \<noteq> -1 then [Setgroups (opt_gid opt)] else []) @
     (if opt_gid opt \<noteq> -1 then [Setgid (opt_gid opt)] else []) @
     (if opt_uid opt \<noteq> -1 then [Setuid (opt_uid opt)] else []) @
     (if daemonize opt then [Daemon] else [])"

text \<open>The port is the third and fourth byte of a socket address of both families.\<close>

definition set_port :: "family \<Rightarrow> int \<Rightarrow> bytes \<Rightarrow> bytes" where
  "set_port fam port addr =
     (if fam = AF_INET \<or> fam = AF_INET6 then take 2 addr @ htons (word_of_int port) @ drop 4 addr else addr)"

text \<open>What the outside gives during start-up.\<close>

record start_env =
  se_fdopen :: bool
  se_calloc_rb :: bool
  se_calloc_storage :: bool
  se_log0 :: log_env
  se_log1 :: log_env
  se_curl_init :: bool
  se_curl_info :: bool
  se_setopt :: "string \<Rightarrow> bool"
  se_stat :: stat
  se_getaddrinfo :: "string \<Rightarrow> (family \<times> bytes) option"
  se_udp_sock :: int
  se_udp_bind :: "sys_call list \<Rightarrow> bytes \<Rightarrow> int"
  se_tcp_alloc :: bool
  se_listen :: "sys_call list \<Rightarrow> listen_env"
  se_sys :: "sys_call list \<Rightarrow> sys_call \<Rightarrow> bool"
  se_url_host :: "string \<Rightarrow> string option"
  se_pton :: "string \<Rightarrow> int"
  se_poller :: poller_env
  se_systemd :: bool

text \<open>
  The program while it runs. \<open>px_stat\<close> is the statistics object when it is not shared with the client, that
  is when no interval is set; \<open>px_calls\<close> are the calls on libev that \<open>main\<close> makes itself and those of
  objects that are freed.
\<close>

record proxy =
  px_opt :: options
  px_log :: logging
  px_stat :: stat
  px_app :: app_state
  px_servers :: servers
  px_poller :: "dns_poller option"
  px_sys :: "sys_call list"
  px_calls :: "call list"

definition log_done :: "log_res \<Rightarrow> logging res" where
  "log_done r = (case r of None \<Rightarrow> Inl Hung | Some (Inl (e, l)) \<Rightarrow> Inl e | Some (Inr l) \<Rightarrow> Inr l)"

text \<open>The end of the start-up: name resolution through the proxy, bootstrap polling, or neither.\<close>

definition start_poller :: "start_env \<Rightarrow> options \<Rightarrow> app_state \<Rightarrow> (app_state \<times> dns_poller option) res" where
  "start_poller env opt app =
     (if proxy_supports_name_resolution (curl_proxy opt) then Inr (app, None)
      else
        bind_res (hostname_from_url (se_url_host env) (se_pton env) (resolver_url opt) 255)
          (\<lambda>h. case h of
                 Some hostname \<Rightarrow>
                   bind_res (dns_poller_init (se_poller env) (bootstrap_dns opt) (bootstrap_dns_polling_interval opt) (source_addr opt)
                               hostname (if ipv4 opt then AF_INET else AF_UNSPEC))
                     (\<lambda>p. Inr (app\<lparr>app_using_dns_poller := True\<rparr>, Some p))
               | None \<Rightarrow> Inr (systemd_notify_ready (se_systemd env) app, None)))"

text \<open>The two servers, each of which binds its socket.\<close>

definition start_udp :: "start_env \<Rightarrow> family \<Rightarrow> bytes \<Rightarrow> sys_call list \<Rightarrow> (dns_server \<times> sys_call list) res" where
  "start_udp env fam addr sys =
     bind_res (dns_server_init (se_udp_sock env) fam (se_udp_bind env sys addr) (length addr))
       (\<lambda>d. Inr (d, sys @ [Bind_udp addr]))"

definition start_tcp ::
  "start_env \<Rightarrow> options \<Rightarrow> family \<Rightarrow> bytes \<Rightarrow> sys_call list \<Rightarrow> (dns_server_tcp option \<times> sys_call list) res" where
  "start_tcp env opt fam addr sys =
     (if tcp_client_limit opt > 0
      then bind_res (dns_server_tcp_create (se_tcp_alloc env)
                       ((se_listen env sys)\<lparr>le_family := fam, le_addrlen := length addr\<rparr>) (word_of_int (tcp_client_limit opt)))
             (\<lambda>d. Inr (Some d, sys @ [Bind_tcp addr]))
      else Inr (None, sys))"

definition main_start :: "start_env \<Rightarrow> options \<Rightarrow> proxy res" where
  "main_start env opt =
     (let log = logging_init (se_fdopen env) (se_calloc_rb env) (se_calloc_storage env) (logfd opt) (opt_loglevel opt)
                  (word_of_int (flight_recorder_size opt)) logging_start
      in if \<not> se_curl_init env then Inl Fatal
         else if \<not> se_curl_info env then Inl Fatal
         else
           (let st = stat_init (opt_stats_interval opt) (se_stat env)
            in bind_res (https_client_init (se_setopt env) opt (if opt_stats_interval opt \<noteq> 0 then Some st else None)) (\<lambda>client.
               bind_res (get_listen_address (se_getaddrinfo env) (listen_addr opt)) (\<lambda>(fam, ai_addr).
                 (let addr = set_port fam (listen_port opt) ai_addr;
                      app = \<lparr>app_https_client = client, app_resolv = None, app_resolver_url = resolver_url opt,
                             app_using_dns_poller = False, app_addrlen = length addr, app_called_once = False, app_ready = 0\<rparr>
                  in bind_res (start_udp env fam addr []) (\<lambda>(udp, sys1).
                     bind_res (start_tcp env opt fam addr sys1) (\<lambda>(tcp, sys2).
                     bind_res (attempt (se_sys env) (drop_privileges opt) sys2) (\<lambda>sys3.
                     bind_res (log_done (logging_events_init (se_log0 env) (se_log1 env) log)) (\<lambda>log1.
                     bind_res (start_poller env opt app) (\<lambda>(app1, poller).
                       Inr \<lparr>px_opt = opt, px_log = log1, px_stat = st, px_app = app1,
                            px_servers = \<lparr>sv_udp = udp, sv_tcp = tcp\<rparr>, px_poller = poller,
                            px_sys = sys3,
                            px_calls = [Ev_start Sigpipe, Ev_start Sigint, Ev_start Sigterm]\<rparr>))))))))))"

section \<open>Running\<close>

text \<open>The callbacks of the HTTPS client.\<close>

datatype client_event =
    Client_sock curl_env "curl_event list" curlm_code "curl_msg list"
  | Client_timer curl_env "curl_event list" curlm_code "curl_msg list"
  | Client_reset curl_env "curl_event list" "string \<Rightarrow> bool"

fun client_event_cb ::
  "(request option, servers) resp_cb \<Rightarrow> client_event \<Rightarrow> request option https_client \<times> servers \<Rightarrow>
   (request option https_client \<times> servers) res" where
  "client_event_cb cb (Client_sock env events code msgs) cs = client_sock_cb env cb events code msgs cs"
| "client_event_cb cb (Client_timer env events code msgs) cs =
     client_timer_cb env cb events code msgs (hc_emit [Ev_expired Curl_timer] (fst cs), snd cs)"
| "client_event_cb cb (Client_reset env closing setopt_ok) cs =
     reset_timer_cb env cb closing setopt_ok (hc_emit [Ev_expired Reset_timer] (fst cs), snd cs)"

fun client_event_ok :: "client_event \<Rightarrow> bool" where
  "client_event_ok (Client_sock env events code msgs) \<longleftrightarrow> env_ok env \<and> events_ok events"
| "client_event_ok (Client_timer env events code msgs) \<longleftrightarrow> env_ok env \<and> events_ok events"
| "client_event_ok (Client_reset env closing setopt_ok) \<longleftrightarrow> env_ok env \<and> events_ok closing"

text \<open>The statistics object, wherever it lives.\<close>

definition on_stat :: "(stat \<Rightarrow> stat) \<Rightarrow> proxy \<Rightarrow> proxy" where
  "on_stat f px =
     (let c = app_https_client (px_app px)
      in case hc_stat c of
           Some s \<Rightarrow> px\<lparr>px_app := (px_app px)\<lparr>app_https_client := c\<lparr>hc_stat := Some (f s)\<rparr>\<rparr>\<rparr>
         | None \<Rightarrow> px\<lparr>px_stat := f (px_stat px)\<rparr>)"

section \<open>Shutdown\<close>

text \<open>\<open>signal_shutdown_cb\<close> breaks the loop and \<open>sigpipe_cb\<close> does nothing; both only log otherwise.\<close>

datatype loop_action = Ev_break_all | Keep_running

definition signal_shutdown_cb :: loop_action where "signal_shutdown_cb = Ev_break_all"
definition sigpipe_cb :: loop_action where "sigpipe_cb = Keep_running"

text \<open>
  From the end of the first loop to the start of the second. \<open>events\<close> are the callbacks of \<open>ares_destroy\<close>.
\<close>

definition main_stop :: "poll_env \<Rightarrow> 'r resp_env \<Rightarrow> bool \<Rightarrow> (addr_node \<Rightarrow> string) \<Rightarrow> ares_event list \<Rightarrow> proxy \<Rightarrow> proxy res" where
  "main_stop pl re alloc ntop events px =
     bind_res (case px_poller px of
                 None \<Rightarrow> Inr (None, (px_app px, px_servers px))
               | Some d \<Rightarrow>
                   if app_using_dns_poller (px_app px)
                   then bind_res (dns_poller_cleanup alloc ntop (dns_poll_cb pl re (p_hostname d)) events
                                    (d, (px_app px, px_servers px))) (\<lambda>(d', s). Inr (Some d', s))
                   else Inr (Some d, (px_app px, px_servers px)))
       (\<lambda>(poller, (app, sv)).
          bind_res (case sv_tcp sv of
                      None \<Rightarrow> Inr None
                    | Some d \<Rightarrow> bind_res (returned (dns_server_tcp_stop d)) (\<lambda>d'. Inr (Some d')))
            (\<lambda>tcp.
               Inr (on_stat stat_stop
                 (px\<lparr>px_poller := poller, px_app := app\<lparr>app_resolv := None\<rparr>, px_log := logging_events_cleanup (px_log px),
                     px_calls := px_calls px @ [Ev_stop Sigterm, Ev_stop Sigint, Ev_stop Sigpipe],
                     px_servers := \<lparr>sv_udp = dns_server_stop (sv_udp sv), sv_tcp = tcp\<rparr>\<rparr>))))"

text \<open>The second loop: only the HTTPS client has watchers left.\<close>

fun main_drain :: "'r resp_env \<Rightarrow> client_event list \<Rightarrow> proxy \<Rightarrow> proxy res" where
  "main_drain re [] px = Inr px"
| "main_drain re (e # es) px =
     bind_res (client_event_cb (https_resp_cb re) e (app_https_client (px_app px), px_servers px))
       (\<lambda>(c, sv). main_drain re es (px\<lparr>px_app := (px_app px)\<lparr>app_https_client := c\<rparr>, px_servers := sv\<rparr>))"

text \<open>After the second loop; the TCP server is freed before the client ends its transfers.\<close>

definition main_finish :: "curl_env \<Rightarrow> curl_event list \<Rightarrow> 'r resp_env \<Rightarrow> proxy \<Rightarrow> proxy res" where
  "main_finish env closing re px =
     (let sv = px_servers px;
          freed = (case sv_tcp sv of None \<Rightarrow> [] | Some d \<Rightarrow> d_calls (dns_server_tcp_cleanup d));
          sv1 = \<lparr>sv_udp = dns_server_cleanup (sv_udp sv), sv_tcp = None\<rparr>
      in bind_res (https_client_cleanup env (https_resp_cb re) closing (app_https_client (px_app px), sv1)) (\<lambda>(c, sv2).
           (let px1 = on_stat stat_cleanup (px\<lparr>px_app := (px_app px)\<lparr>app_https_client := c\<rparr>, px_servers := sv2,
                                               px_calls := px_calls px @ freed\<rparr>)
            in bind_res (logging_cleanup (px_log px1)) (\<lambda>log.
                 Inr (px1\<lparr>px_log := log, px_calls := px_calls px1 @ options_cleanup (px_opt px1)\<rparr>)))))"

end
