(* ===== verification/Proxy_System.thy ===== *)
theory Proxy_System
  imports Proxy_Run
begin

text \<open>
  The whole program as a transition system: every callback of the event loop is a step. The history holds
  the requests that the servers delivered, against which the answers are judged.
\<close>

section \<open>Callbacks that the servers make\<close>

type_synonym delivery = "bool \<times> bytes \<times> bytes"

definition recording :: "'s req_cb \<Rightarrow> ('s \<times> delivery list) req_cb" where
  "recording cb is_tcp raddr req = (\<lambda>(s, hist). bind_res (cb is_tcp raddr req s) (\<lambda>s'. Inr (s', hist @ [(is_tcp, raddr, req)])))"

text \<open>Whatever the callback of a server keeps, the server's own callbacks keep.\<close>

locale request_sink =
  fixes cb :: "'s req_cb" and is_tcp :: bool and inv :: "'s \<Rightarrow> bool"
  assumes deliver_inv: "inv s \<Longrightarrow> cb is_tcp raddr req s = Inr s' \<Longrightarrow> inv s'"
begin

lemma watcher_inv:
  assumes "\<not> is_tcp" "watcher_cb me cb r s = Inr s'" "inv s"
  shows "inv s'"
  using assms deliver_inv by (auto simp: watcher_cb_def Let_def split: udp_recv.splits if_split_asm)

lemma split_requests_inv:
  assumes "split_requests me cb client rc d s = Some r" "is_tcp" "inv s" "r = Inr (d', s')"
  shows "inv s'"
proof -
  have "\<forall>d' s'. cb' = cb \<longrightarrow> inv s \<longrightarrow> r = Inr (d', s') \<longrightarrow> inv s'"
    if "split_requests me cb' client rc d s = Some r" for cb' d s and r :: "(dns_server_tcp \<times> 's) res" and rc
  proof (rule split_requests.raw_induct [where P = "\<lambda>me cb' client rc d s r. \<forall>d' s'. cb' = cb \<longrightarrow> inv s \<longrightarrow>
      r = Inr (d', s') \<longrightarrow> inv s'", OF _ that], goal_cases)
    case (1 again me cb' client rc d s r)
    show ?case
    proof (intro allI impI)
      fix d' s'
      assume cb': "cb' = cb" and s: "inv s" and r: "r = Inr (d', s')"
      have step: "inv s1" if "cb True a q s = Inr s1" for a q s1
        using deliver_inv [OF s] that assms(2) by auto
      from 1(2) r show "inv s'"
        unfolding cb' using s step 1(1) cb'
        by (fastforce simp: Let_def split: option.splits sum.splits prod.splits if_split_asm)
    qed
  qed
  with assms show ?thesis by blast
qed

lemma read_cb_inv:
  assumes "returns (read_cb me cb client r d s) (d', s')" "is_tcp" "inv s"
  shows "inv s'"
proof -
  have "s' = s \<or> (\<exists>d1. split_requests me cb client False d1 s = Some (Inr (d', s')))"
    using assms(1) by (auto simp: read_cb_def Let_def split: option.split_asm recv_result.split_asm if_split_asm sum.split_asm)
      (metis sum.exhaust)
  then show ?thesis using split_requests_inv assms(2,3) by blast
qed

end

section \<open>Answers and the requests they belong to\<close>

text \<open>
  \<open>a\<close> are the functions of c-ares. A UDP answer is the response itself or what truncation makes of it.
\<close>

definition udp_message :: "'r ares \<Rightarrow> request \<Rightarrow> bytes \<Rightarrow> bytes \<Rightarrow> bool" where
  "udp_message a q b msg \<longleftrightarrow> msg = b \<or> truncate_dns_response a b (get_edns_udp_size a (rq_dns_req q)) = Some msg"

fun is_answer :: "call \<Rightarrow> bool" where
  "is_answer (Sendto sock addr msg) \<longleftrightarrow> True"
| "is_answer _ \<longleftrightarrow> False"

definition udp_answers :: "servers \<Rightarrow> call list" where
  "udp_answers sv = filter is_answer (u_calls (sv_udp sv))"

text \<open>A call that answers request \<open>q\<close> with response \<open>b\<close> of the resolver.\<close>

definition answers :: "'r ares \<Rightarrow> request \<times> bytes \<Rightarrow> call \<Rightarrow> bool" where
  "answers a = (\<lambda>(q, b) c. \<not> rq_is_tcp q \<and> DNS_HEADER_LENGTH \<le> length b \<and> rq_tx_id q = ntohs (b ! 0) (b ! 1) \<and>
     rq_tx_id q = ntohs (rq_dns_req q ! 0) (rq_dns_req q ! 1) \<and>
     (\<exists>sock msg. c = Sendto sock (rq_raddr q) msg \<and> udp_message a q b msg))"

text \<open>Where a request came from and what it said; \<open>n\<close> is the length of an address.\<close>

definition origin :: "request \<Rightarrow> delivery" where
  "origin q = (rq_is_tcp q, rq_raddr q, rq_dns_req q)"

definition origins :: "nat \<Rightarrow> delivery list \<Rightarrow> delivery multiset" where
  "origins n hist = mset (map (\<lambda>(t, addr, req). (t, take n addr, req)) hist)"

definition request_ok :: "nat \<Rightarrow> bool \<Rightarrow> servers \<Rightarrow> request \<Rightarrow> bool" where
  "request_ok n b sv q \<longleftrightarrow> 2 \<le> length (rq_dns_req q) \<and> rq_tx_id q = ntohs (rq_dns_req q ! 0) (rq_dns_req q ! 1) \<and>
     length (rq_raddr q) \<le> n \<and> rq_stat q = b \<and> (rq_is_tcp q \<longrightarrow> sv_tcp sv \<noteq> None)"

text \<open>The TCP server while the program runs, and after it has been stopped.\<close>

definition tcp_state :: "bool \<Rightarrow> dns_server_tcp \<Rightarrow> bool" where
  "tcp_state run d \<longleftrightarrow> (if run then \<exists>ps. tcp_inv d ps else d_clients d = 0)"

lemma tcp_state_respond:
  assumes "tcp_state run d" "returns (dns_server_tcp_respond pr f raddr r d) d'"
  shows "tcp_state run d'"
proof (cases run)
  case True
  with assms tcp_step_inv [OF tcp_step.respond [OF assms(2), of "\<lambda>_ _ _ s. Inr s" "()"]] show ?thesis
    by (simp add: tcp_state_def)
next
  case False
  with assms show ?thesis
    by (auto simp: tcp_state_def dns_server_tcp_respond_def find_client.simps split: if_split_asm)
qed

definition served :: "'r ares \<Rightarrow> nat \<Rightarrow> bool \<Rightarrow> delivery list \<Rightarrow> request option multiset \<Rightarrow> bool \<Rightarrow> servers \<Rightarrow> bool" where
  "served a n run hist M b sv \<longleftrightarrow>
     (\<forall>d \<in># M. \<exists>q. d = Some q \<and> request_ok n b sv q) \<and> u_addrlen (sv_udp sv) = n \<and>
     (\<forall>d. sv_tcp sv = Some d \<longrightarrow> tcp_state run d) \<and>
     (\<exists>past. image_mset (origin \<circ> the) M + mset (map (origin \<circ> fst) past) \<subseteq># origins n hist \<and>
        list_all2 (answers a) past (udp_answers sv))"

lemma served_request: "served a n run hist (add_mset d M) b sv \<Longrightarrow> \<exists>q. d = Some q \<and> request_ok n b sv q"
  by (auto simp: served_def)

lemma subset_drop: "add_mset x A + B \<subseteq># C \<Longrightarrow> A + B \<subseteq># C"
  by (metis add_mset_add_single mset_subset_eq_add_left subset_mset.order_trans union_mset_add_mset_left)

lemma served_drop:
  assumes "served a n run hist (add_mset d M) b sv"
  shows "served a n run hist M b sv"
proof -
  obtain past where d: "image_mset (origin \<circ> the) (add_mset d M) + mset (map (origin \<circ> fst) past) \<subseteq># origins n hist"
      "list_all2 (answers a) past (udp_answers sv)" using assms by (auto simp: served_def)
  then have "image_mset (origin \<circ> the) M + mset (map (origin \<circ> fst) past) \<subseteq># origins n hist"
    using subset_drop by (metis image_mset_add_mset)
  with d(2) assms show ?thesis by (auto simp: served_def)
qed

lemma respond_answers:
  assumes "dns_server_respond a (rq_raddr q) (rq_dns_req q) b d = Some d'" "DNS_HEADER_LENGTH \<le> length b"
  obtains msg where "d' = d\<lparr>u_calls := u_calls d @ [Sendto (u_sock d) (take (u_addrlen d) (rq_raddr q)) msg]\<rparr>" "udp_message a q b msg"
  using assms by (auto simp: dns_server_respond_def udp_message_def Let_def bind_eq_Some_conv split: if_split_asm)

text \<open>Forwarding a matching response to the UDP server answers the request.\<close>

lemma served_udp_answer:
  assumes "served a n run hist (add_mset (Some q) M) b sv" "\<not> rq_is_tcp q" "DNS_HEADER_LENGTH \<le> length r"
    and "rq_tx_id q = ntohs (r ! 0) (r ! 1)" "dns_server_respond a (rq_raddr q) (rq_dns_req q) r (sv_udp sv) = Some d'"
  shows "served a n run hist M b (sv\<lparr>sv_udp := d'\<rparr>)"
proof -
  let ?sv = "sv\<lparr>sv_udp := d'\<rparr>"
  obtain past where d: "image_mset (origin \<circ> the) (add_mset (Some q) M) + mset (map (origin \<circ> fst) past) \<subseteq># origins n hist"
      "list_all2 (answers a) past (udp_answers sv)" using assms(1) by (auto simp: served_def)
  have q: "request_ok n b sv q" "u_addrlen (sv_udp sv) = n" using assms(1) by (auto simp: served_def)
  obtain msg where d': "d' = (sv_udp sv)\<lparr>u_calls := u_calls (sv_udp sv) @ [Sendto (u_sock (sv_udp sv)) (rq_raddr q) msg]\<rparr>"
      "udp_message a q r msg"
    using respond_answers [OF assms(5,3)] q by (metis request_ok_def take_all)
  have "udp_answers ?sv = udp_answers sv @ [Sendto (u_sock (sv_udp sv)) (rq_raddr q) msg]"
    by (simp add: udp_answers_def d')
  moreover have "answers a (q, r) (Sendto (u_sock (sv_udp sv)) (rq_raddr q) msg)"
    using assms(2-4) q(1) d'(2) by (simp add: answers_def request_ok_def)
  ultimately have "list_all2 (answers a) (past @ [(q, r)]) (udp_answers ?sv)" using d(2) by (simp add: list_all2_appendI)
  moreover have "image_mset (origin \<circ> the) M + mset (map (origin \<circ> fst) (past @ [(q, r)])) \<subseteq># origins n hist"
    using d(1) by simp
  ultimately have "\<exists>past. image_mset (origin \<circ> the) M + mset (map (origin \<circ> fst) past) \<subseteq># origins n hist \<and>
      list_all2 (answers a) past (udp_answers ?sv)" by blast
  moreover have "request_ok n b ?sv = request_ok n b sv" by (simp add: request_ok_def fun_eq_iff)
  moreover have "u_addrlen d' = u_addrlen (sv_udp sv)" by (simp add: d')
  ultimately show ?thesis using assms(1) by (simp add: served_def)
qed

lemma served_tcp_answer:
  assumes "served a n run hist M b sv" "sv_tcp sv = Some d" "returns (dns_server_tcp_respond pr f raddr r d) d'"
  shows "served a n run hist M b (sv\<lparr>sv_tcp := Some d'\<rparr>)"
proof -
  have "tcp_state run d'" using tcp_state_respond [OF _ assms(3)] assms(1,2) by (simp add: served_def)
  moreover have "request_ok n b (sv\<lparr>sv_tcp := Some d'\<rparr>) = request_ok n b sv"
    using assms(2) by (simp add: request_ok_def fun_eq_iff)
  ultimately show ?thesis using assms(1) by (simp add: served_def udp_answers_def)
qed

interpretation serving: abortable_handler "https_resp_cb re" "served (re_ares re) n run hist" for re n run hist
proof unfold_locales
  fix d M st sv r st' sv'
  assume s: "served (re_ares re) n run hist (add_mset d M) (st \<noteq> None) sv" and r: "https_resp_cb re d r (st, sv) = Inr (st', sv')"
  obtain q where q: "d = Some q" "request_ok n (st \<noteq> None) sv q" using served_request [OF s] by blast
  consider "st' = st" "sv' = sv"
    | b where "r = Some b" "DNS_HEADER_LENGTH \<le> length b" "rq_tx_id q = ntohs (b ! 0) (b ! 1)"
        "forward_response re q b sv = Inr sv'" "st' = None \<longleftrightarrow> st = None"
    using r q by (auto simp: https_resp_cb_def request_ok_def split: option.split_asm if_split_asm)
  then show "(st' = None \<longleftrightarrow> st = None) \<and> served (re_ares re) n run hist M (st \<noteq> None) sv'"
  proof cases
    case 1
    with served_drop [OF s] show ?thesis by simp
  next
    case (2 b)
    have "served (re_ares re) n run hist M (st \<noteq> None) sv'"
      using 2(4) served_udp_answer [OF s [unfolded q(1)] _ 2(2,3)] served_tcp_answer [OF served_drop [OF s]]
      by (auto simp: forward_response_def split: if_split_asm option.split_asm)
    with 2(5) show ?thesis by simp
  qed
next
  fix d M sv and st :: "stat option"
  assume "served (re_ares re) n run hist (add_mset d M) (st \<noteq> None) sv"
  from served_request [OF this] show "\<exists>r. https_resp_cb re d None (st, sv) = Inr r" by (auto simp: https_resp_cb_def)
qed

section \<open>What every callback keeps\<close>

definition app_good :: "'r ares \<Rightarrow> nat \<Rightarrow> bool \<Rightarrow> bool \<Rightarrow> (app_state \<times> servers) \<times> delivery list \<Rightarrow> bool" where
  "app_good a n polled run = (\<lambda>((app, sv), hist). app_addrlen app = n \<and> app_using_dns_poller app = polled \<and>
     reply_handler.good (served a n run hist) (app_https_client app) sv)"

definition fetch_ok :: "fetch_env \<Rightarrow> bool" where
  "fetch_ok fe \<longleftrightarrow> env_ok (fe_curl fe) \<and> events_ok (fe_closing fe)"

definition poll_ok :: "poll_env \<Rightarrow> bool" where
  "poll_ok pl \<longleftrightarrow> env_ok (pl_curl pl) \<and> events_ok (pl_closing pl)"

lemma served_good:
  "reply_handler.good (served a n run hist) c sv \<longleftrightarrow> https_ok c \<and> served a n run hist (mset (map f_cb_data (hc_fetches c))) (hc_stat c \<noteq> None) sv"
  using serving.good_def [where re = "\<lparr>re_ares = a, re_now = 0, re_prefix = \<lambda>_. Sent 0, re_send = \<lambda>_ _. Sent 0\<rparr>"] by simp

lemma served_requests_only: "served a n run hist M b sv \<Longrightarrow> requests_only sv M b' sv"
  by (auto simp: served_def requests_only_def)

lemma served_later: "served a n run hist M b sv \<Longrightarrow> served a n run (hist @ new) M b sv"
proof -
  assume s: "served a n run hist M b sv"
  have "origins n hist \<subseteq># origins n (hist @ new)" by (simp add: origins_def)
  with s show ?thesis unfolding served_def by (meson subset_mset.order_trans)
qed

lemma served_new_request:
  assumes "served a n run hist M b sv" "request_ok n b sv q" "origin q = (t, take n addr, req)"
  shows "served a n run (hist @ [(t, addr, req)]) (add_mset (Some q) M) b sv"
proof -
  obtain past where p: "image_mset (origin \<circ> the) M + mset (map (origin \<circ> fst) past) \<subseteq># origins n hist"
      "list_all2 (answers a) past (udp_answers sv)" using assms(1) by (auto simp: served_def)
  have "image_mset (origin \<circ> the) (add_mset (Some q) M) + mset (map (origin \<circ> fst) past) \<subseteq># origins n (hist @ [(t, addr, req)])"
    using p(1) by (simp add: origins_def assms(3))
  with p(2) assms(1,2) show ?thesis unfolding served_def by auto
qed

lemma dns_server_cb_good:
  assumes cb: "dns_server_cb fe re t addr req (app, sv) = Inr (app', sv')" and ok: "fetch_ok fe"
    and good: "app_good (re_ares re) n polled run ((app, sv), hist)" and tcp: "t \<longrightarrow> sv_tcp sv \<noteq> None"
  shows "app_good (re_ares re) n polled run ((app', sv'), hist @ [(t, addr, req)]) \<and> sv' = sv"
proof -
  let ?c = "app_https_client app" and ?q = "new_request fe t addr req app"
  have g: "https_ok ?c" "served (re_ares re) n run hist (mset (map f_cb_data (hc_fetches ?c))) (hc_stat ?c \<noteq> None) sv" "app_addrlen app = n"
    "app_using_dns_poller app = polled"
    using good by (auto simp: app_good_def served_good)
  from cb show ?thesis
  proof (cases rule: dns_server_cb_cases)
    case discarded
    with g served_later show ?thesis by (auto simp: app_good_def served_good)
  next
    case (fetched c')
    define c1 where "c1 = ?c\<lparr>hc_stat := map_option (stat_request_begin (word_of_nat (length req)) t) (hc_stat ?c)\<rparr>"
    note f = fetched(3) [folded c1_def] fetched(2,1)
    have c1: "https_ok c1" "hc_fetches c1 = hc_fetches ?c" "hc_stat c1 \<noteq> None \<longleftrightarrow> hc_stat ?c \<noteq> None"
      using g(1) by (simp_all add: c1_def https_ok_def)
    have "request_ok n (hc_stat ?c \<noteq> None) sv ?q" "origin ?q = (t, take n addr, req)"
      using f(3) tcp g(3) by (simp_all add: request_ok_def origin_def new_request_def Let_def)
    from served_new_request [OF g(2) this]
    have inv: "served (re_ares re) n run (hist @ [(t, addr, req)]) (add_mset (Some ?q) (mset (map f_cb_data (hc_fetches c1)))) (hc_stat c1 \<noteq> None) sv"
      by (simp only: c1(2,3))
    have "reply_handler.good (served (re_ares re) n run (hist @ [(t, addr, req)])) c' sv'"
      using serving.fetch_good [OF f(1) c1(1) inv] ok by (simp add: fetch_ok_def)
    moreover have "sv' = sv"
      using aborting.fetch_good [OF f(1) [unfolded abort_cong(3) [of _ _ "https_resp_cb re"]] c1(1) served_requests_only [OF inv]] ok
      by (simp add: fetch_ok_def aborting_good)
    ultimately show ?thesis using f(2) g(3,4) by (simp add: app_good_def)
  qed
qed

lemma dns_poll_cb_good:
  assumes "dns_poll_cb pl re host addrs (app, sv) = Inr (app', sv')" "poll_ok pl" "app_good (re_ares re) n polled run ((app, sv), hist)"
  shows "app_good (re_ares re) n polled run ((app', sv'), hist)"
proof -
  have ready: "app_https_client (systemd_notify_ready b app) = app_https_client app"
      "app_addrlen (systemd_notify_ready b app) = app_addrlen app"
      "app_using_dns_poller (systemd_notify_ready b app) = app_using_dns_poller app" for b
    by (simp_all add: systemd_notify_ready_def)
  consider "app_https_client app' = app_https_client app" "app_addrlen app' = app_addrlen app" "sv' = sv"
        "app_using_dns_poller app' = app_using_dns_poller app"
    | "https_client_reset (pl_curl pl) (https_resp_cb re) (pl_closing pl) (pl_setopt pl) (app_https_client app, sv) =
         Inr (app_https_client app', sv')" "app_addrlen app' = app_addrlen app"
        "app_using_dns_poller app' = app_using_dns_poller app"
    using assms(1) ready by (auto simp: dns_poll_cb_def Let_def split: if_split_asm option.split_asm)
  then show ?thesis
  proof cases
    case 1
    with assms(3) show ?thesis by (simp add: app_good_def)
  next
    case 2
    with serving.client_reset_good [OF 2(1)] assms(2,3) show ?thesis by (simp add: app_good_def poll_ok_def)
  qed
qed

lemma client_event_good:
  assumes "client_event_cb (https_resp_cb re) e (app_https_client app, sv) = Inr (c', sv')" "client_event_ok e"
    and "app_good (re_ares re) n polled run ((app, sv), hist)"
  shows "app_good (re_ares re) n polled run ((app\<lparr>app_https_client := c'\<rparr>, sv'), hist)"
proof -
  have g: "reply_handler.good (served (re_ares re) n run hist) (hc_emit cs (app_https_client app)) sv"
    if "cs = [] \<or> cs = [Ev_expired Curl_timer] \<or> cs = [Ev_expired Reset_timer]" for cs
    using assms(3) that by (auto simp: app_good_def served_good https_ok_emit ev_active_append) (simp_all add: hc_emit_def)
  have "reply_handler.good (served (re_ares re) n run hist) c' sv'"
  proof (cases e)
    case (Client_sock env events code msgs)
    with assms serving.sock_cb_good [of env re events code msgs "app_https_client app" sv c' sv' n run hist] show ?thesis
      by (simp add: app_good_def)
  next
    case (Client_timer env events code msgs)
    with assms(1,2) serving.timer_cb_good [of env re events code msgs _ sv c' sv' n run hist, OF _ g] show ?thesis by simp
  next
    case (Client_reset env closing setopt_ok)
    with assms(1,2) serving.client_reset_good [of env re closing setopt_ok _ sv c' sv' n run hist, OF _ g] show ?thesis
      by (simp add: reset_timer_cb_def)
  qed
  with assms(3) show ?thesis by (simp add: app_good_def)
qed

section \<open>Steps of the program\<close>

text \<open>
  \<open>a\<close> are the functions of c-ares, the same in every step. A callback runs only while its watcher is
  active; \<open>calloc\<close> gives the TCP server pointers that are neither null nor in use. The lines that the
  callbacks log are steps of their own (\<open>log_call\<close>); a call that ends the process is none.
\<close>

type_synonym proxy_state = "proxy \<times> delivery list"

inductive proxy_step :: "'r ares \<Rightarrow> proxy_state \<Rightarrow> proxy_state \<Rightarrow> bool" for a where
  udp: "watcher_cb me (recording (dns_server_cb fe re)) r ((px_app px, px_servers px), hist) = Inr ((app, sv), hist') \<Longrightarrow>
    fetch_ok fe \<Longrightarrow> re_ares re = a \<Longrightarrow> proxy_step a (px, hist) (px\<lparr>px_app := app, px_servers := sv\<rparr>, hist')"
| tcp_read: "sv_tcp (px_servers px) = Some d \<Longrightarrow> ev_active (d_calls d) (Read_watcher p) \<Longrightarrow>
    returns (read_cb me (recording (dns_server_cb fe re)) p r d ((px_app px, px_servers px), hist)) (d', ((app, sv), hist')) \<Longrightarrow>
    fetch_ok fe \<Longrightarrow> re_ares re = a \<Longrightarrow>
    proxy_step a (px, hist) (px\<lparr>px_app := app, px_servers := sv\<lparr>sv_tcp := Some d'\<rparr>\<rparr>, hist')"
| tcp_accept: "sv_tcp (px_servers px) = Some d \<Longrightarrow> ev_active (d_calls d) Accept_watcher \<Longrightarrow> p \<noteq> 0 \<Longrightarrow> p \<notin> dom (d_heap d) \<Longrightarrow>
    accept_cb ar uninit (Some p) d = Inr d' \<Longrightarrow>
    proxy_step a (px, hist) (px\<lparr>px_servers := (px_servers px)\<lparr>sv_tcp := Some d'\<rparr>\<rparr>, hist)"
| tcp_timeout: "sv_tcp (px_servers px) = Some d \<Longrightarrow> ev_active (d_calls d) (Timer_watcher p) \<Longrightarrow>
    returns (tcp_timer_cb p d) d' \<Longrightarrow> proxy_step a (px, hist) (px\<lparr>px_servers := (px_servers px)\<lparr>sv_tcp := Some d'\<rparr>\<rparr>, hist)"
| client: "client_event_cb (https_resp_cb re) e (app_https_client (px_app px), px_servers px) = Inr (c, sv) \<Longrightarrow>
    client_event_ok e \<Longrightarrow> re_ares re = a \<Longrightarrow>
    proxy_step a (px, hist) (px\<lparr>px_app := (px_app px)\<lparr>app_https_client := c\<rparr>, px_servers := sv\<rparr>, hist)"
| poll: "px_poller px = Some d \<Longrightarrow>
    poller_step (dns_poll_cb pl re (p_hostname d)) (d, (px_app px, px_servers px)) (d', (app, sv)) \<Longrightarrow> poll_ok pl \<Longrightarrow>
    re_ares re = a \<Longrightarrow> proxy_step a (px, hist) (px\<lparr>px_poller := Some d', px_app := app, px_servers := sv\<rparr>, hist)"
| stats: "proxy_step a (px, hist) (on_stat stat_timer_cb px, hist)"
| log_flush: "proxy_step a (px, hist) (px\<lparr>px_log := logging_timer_cb (px_log px)\<rparr>, hist)"
| sigusr2: "proxy_step a (px, hist) (px\<lparr>px_log := logging_flight_recorder_dump_cb (px_log px)\<rparr>, hist)"
| log_dump: "log_done (logging_flight_recorder_dump_async_cb le (px_log px)) = Inr l \<Longrightarrow>
    proxy_step a (px, hist) (px\<lparr>px_log := l\<rparr>, hist)"
| log_call: "log_done (log_line le file line severity msg (px_log px)) = Inr l \<Longrightarrow>
    proxy_step a (px, hist) (px\<lparr>px_log := l\<rparr>, hist)"

definition proxy_start :: "proxy_state \<Rightarrow> bool" where
  "proxy_start st \<longleftrightarrow> snd st = [] \<and>
     (\<exists>oenv info args env opt. main_options oenv info args = Inr opt \<and> main_start env opt = Inr (fst st))"

lemma proxy_startI:
  assumes "main_options oenv info args = Inr opt" "main_start env opt = Inr px"
  shows "proxy_start (px, [])"
  unfolding proxy_start_def snd_conv fst_conv by (intro conjI refl exI) (rule assms)+

definition proxy_inv :: "'r ares \<Rightarrow> proxy_state \<Rightarrow> bool" where
  "proxy_inv a = (\<lambda>(px, hist).
     app_good a (app_addrlen (px_app px)) (px_poller px \<noteq> None) True ((px_app px, px_servers px), hist) \<and>
     (\<forall>d. px_poller px = Some d \<longrightarrow> poller_inv (d, ())) \<and> logger_shape (px_log px))"

lemma app_good_tcp:
  assumes "app_good a n u run0 ((app, sv), hist)" "tcp_state run d" "sv_tcp sv \<noteq> None"
  shows "app_good a n u run ((app, sv\<lparr>sv_tcp := Some d\<rparr>), hist)"
proof -
  have "request_ok n b (sv\<lparr>sv_tcp := Some d\<rparr>) = request_ok n b sv" for b
    using assms(3) by (simp add: request_ok_def fun_eq_iff)
  with assms show ?thesis by (simp add: app_good_def served_good served_def udp_answers_def)
qed

lemma on_stat_good:
  "app_good a n u run ((px_app px, px_servers px), hist) \<Longrightarrow>
   app_good a n u run ((px_app (on_stat f px), px_servers (on_stat f px)), hist)"
  by (auto simp: on_stat_def Let_def app_good_def served_good https_ok_def split: option.split)

text \<open>The proxy as what the servers deliver to and what the poller reports to.\<close>

definition sink_good :: "'r ares \<Rightarrow> nat \<Rightarrow> bool \<Rightarrow> fetch_env \<Rightarrow> bool \<Rightarrow> servers \<Rightarrow> (app_state \<times> servers) \<times> delivery list \<Rightarrow> bool" where
  "sink_good a n u fe is_tcp sv0 st \<longleftrightarrow> fetch_ok fe \<and> (is_tcp \<longrightarrow> sv_tcp sv0 \<noteq> None) \<and> app_good a n u True st \<and> snd (fst st) = sv0"

interpretation deliveries: request_sink "recording (dns_server_cb fe re)" is_tcp "sink_good (re_ares re) n u fe is_tcp sv0"
  for fe re is_tcp n u sv0
proof unfold_locales
  fix s raddr req s'
  assume s: "sink_good (re_ares re) n u fe is_tcp sv0 s" "recording (dns_server_cb fe re) is_tcp raddr req s = Inr s'"
  obtain app sv hist where st: "s = ((app, sv), hist)" by (metis surj_pair)
  obtain app' sv' where s': "dns_server_cb fe re is_tcp raddr req (app, sv) = Inr (app', sv')"
      "s' = ((app', sv'), hist @ [(is_tcp, raddr, req)])"
    using s(2) by (auto simp: recording_def st)
  from dns_server_cb_good [OF s'(1), of n u True hist] s(1) show "sink_good (re_ares re) n u fe is_tcp sv0 s'"
    by (auto simp: sink_good_def st s'(2))
qed

interpretation bootstrap: addr_consumer "dns_poll_cb pl re host" "\<lambda>s. poll_ok pl \<and> app_good (re_ares re) n u run (s, hist)"
  for pl re host n u run hist
proof unfold_locales
  fix s addrs s'
  assume "poll_ok pl \<and> app_good (re_ares re) n u run (s, hist)" "dns_poll_cb pl re host addrs s = Inr s'"
  then show "poll_ok pl \<and> app_good (re_ares re) n u run (s', hist)"
    using dns_poll_cb_good [of pl re host addrs "fst s" "snd s" "fst s'" "snd s'" n u run hist] by simp
qed

lemma proxy_inv_tcp:
  assumes "proxy_inv a (px, hist)" "sv_tcp (px_servers px) = Some d"
  shows "\<exists>ps. tcp_inv d ps"
    and "\<exists>ps. tcp_inv d' ps \<Longrightarrow> proxy_inv a (px\<lparr>px_servers := (px_servers px)\<lparr>sv_tcp := Some d'\<rparr>\<rparr>, hist)"
proof -
  show "\<exists>ps. tcp_inv d ps" using assms by (auto simp: proxy_inv_def app_good_def served_good served_def tcp_state_def)
  show "proxy_inv a (px\<lparr>px_servers := (px_servers px)\<lparr>sv_tcp := Some d'\<rparr>\<rparr>, hist)" if "\<exists>ps. tcp_inv d' ps"
    using app_good_tcp [of a "app_addrlen (px_app px)" "px_poller px \<noteq> None" True "px_app px" "px_servers px" hist True d'] assms that
    by (simp add: proxy_inv_def tcp_state_def)
qed

lemma log_done_shape:
  assumes "logger_shape l"
  shows "log_done (logging_events_init env0 env1 l) = Inr l' \<Longrightarrow> logger_shape l'"
    and "log_done (logging_flight_recorder_dump_async_cb env0 l) = Inr l' \<Longrightarrow> logger_shape l'"
    and "log_done (log_line env0 file line severity msg l) = Inr l' \<Longrightarrow> logger_shape l'"
  using logger_shape_events_init [OF _ assms] logger_shape_dump_async [OF _ assms] logger_shape_log_line [OF _ assms]
  by (auto simp: log_done_def split: option.splits sum.splits)

lemma proxy_step_inv: "proxy_step a st st' \<Longrightarrow> proxy_inv a st \<Longrightarrow> proxy_inv a st'"
proof (induction rule: proxy_step.induct)
  case (udp me fe re r px hist app sv hist')
  let ?g = "sink_good (re_ares re) (app_addrlen (px_app px)) (px_poller px \<noteq> None) fe False (px_servers px)"
  have "?g ((px_app px, px_servers px), hist)" using udp by (simp add: sink_good_def proxy_inv_def)
  from deliveries.watcher_inv [OF _ udp(1) this] udp(3,4) show ?case
    by (auto simp: sink_good_def proxy_inv_def app_good_def)
next
  case (tcp_read px d p me fe re r hist d' app sv hist')
  let ?g = "sink_good (re_ares re) (app_addrlen (px_app px)) (px_poller px \<noteq> None) fe True (px_servers px)"
  have "?g ((px_app px, px_servers px), hist)" using tcp_read by (simp add: sink_good_def proxy_inv_def)
  from deliveries.read_cb_inv [OF tcp_read(3) _ this] have g: "?g ((app, sv), hist')" by simp
  have "tcp_state True d'"
    using tcp_step_inv [OF tcp_step.read [OF tcp_read(2,3)]] proxy_inv_tcp(1) [OF tcp_read(6,1)] by (simp add: tcp_state_def)
  from app_good_tcp [OF _ this, of a "app_addrlen (px_app px)" "px_poller px \<noteq> None" True app sv hist'] g tcp_read(1,5,6)
  show ?case by (auto simp: sink_good_def proxy_inv_def app_good_def)
next
  case (tcp_accept px d p ar uninit d' hist)
  have "\<exists>ps. tcp_inv d' ps" using proxy_inv_tcp(1) [OF tcp_accept(6,1)] tcp_step_inv [OF tcp_step.accept [OF tcp_accept(2-5), of "\<lambda>_ _ _ s. Inr s" "()"]] by simp
  then show ?case by (rule proxy_inv_tcp(2) [OF tcp_accept(6,1)])
next
  case (tcp_timeout px d p d' hist)
  have "\<exists>ps. tcp_inv d' ps" using proxy_inv_tcp(1) [OF tcp_timeout(4,1)] tcp_step_inv [OF tcp_step.timeout [OF tcp_timeout(2,3), of "\<lambda>_ _ _ s. Inr s" "()"]] by simp
  then show ?case by (rule proxy_inv_tcp(2) [OF tcp_timeout(4,1)])
next
  case (client re e px c sv hist)
  from client_event_good [OF client(1,2)] client(3,4) show ?case by (auto simp: proxy_inv_def)
next
  case (poll px d pl re d' app sv hist)
  have "app_good a (app_addrlen (px_app px)) True True ((app, sv), hist)"
    using bootstrap.poller_step_keeps [OF poll(2)] poll(1,3,4,5) by (simp add: proxy_inv_def)
  moreover have "poller_inv (d', (app, sv))"
    using poller_step_inv [OF poll(2)] poll(1,5) by (simp add: proxy_inv_def poller_inv_def)
  moreover have "logger_shape (px_log px)" using poll(5) by (simp add: proxy_inv_def)
  ultimately show ?case by (auto simp: proxy_inv_def poller_inv_def app_good_def)
next
  case (stats px hist)
  have "px_poller (on_stat f px) = px_poller px" "app_addrlen (px_app (on_stat f px)) = app_addrlen (px_app px)"
      "px_log (on_stat f px) = px_log px" for f
    by (auto simp: on_stat_def Let_def split: option.split)
  with stats on_stat_good [of a _ "px_poller px \<noteq> None" True px hist] show ?case by (simp add: proxy_inv_def)
next
  case (log_dump le px l hist)
  then show ?case using log_done_shape(2) by (auto simp: proxy_inv_def)
next
  case (log_call le fn n sev msg px l hist)
  then show ?case using log_done_shape(3) by (auto simp: proxy_inv_def)
qed (simp_all add: proxy_inv_def)

lemma main_options_accepted:
  assumes "main_options oenv info args = Inr opt"
  shows "0 \<le> tcp_client_limit opt \<and> tcp_client_limit opt \<le> 200 \<and> use_http_version opt \<in> {1, 2, 3}"
proof -
  have "options_parse_args oenv args options_init = (OPR_SUCCESS, opt)"
    using assms by (auto simp: main_options_def split: prod.split_asm OptionsParseResult.split_asm)
  from accepted_options [OF this] show ?thesis by blast
qed

lemma start_tcp_inv:
  assumes "start_tcp env opt fam addr sys = Inr (Some d, sys')" "tcp_client_limit opt \<le> 200"
  shows "\<exists>ps. tcp_inv d ps"
proof -
  have lim: "0 < tcp_client_limit opt" and cr: "dns_server_tcp_create (se_tcp_alloc env)
      ((se_listen env sys)\<lparr>le_family := fam, le_addrlen := length addr\<rparr>) (word_of_int (tcp_client_limit opt)) = Inr d"
    using assms(1) by (auto simp: start_tcp_def split: if_split_asm)
  have "uint (word_of_int (tcp_client_limit opt) :: u16) = tcp_client_limit opt"
    using lim assms(2) by (simp add: uint_word_of_int_eq take_bit_int_eq_self)
  then have "0 < (word_of_int (tcp_client_limit opt) :: u16)" using lim by (simp add: word_less_def)
  with create_correct cr show ?thesis by blast
qed

text \<open>What a successful start leaves.\<close>

lemma main_start_cases:
  assumes "main_start env opt = Inr px"
  obtains client fam addr udp tcp sys app where
    "https_client_init (se_setopt env) opt (if opt_stats_interval opt \<noteq> 0 then Some (stat_init (opt_stats_interval opt) (se_stat env)) else None) =
       Inr client"
    "start_udp env fam addr [] = Inr (udp, [Bind_udp addr])" "start_tcp env opt fam addr [Bind_udp addr] = Inr (tcp, sys)"
    "attempt (se_sys env) (drop_privileges opt) sys = Inr (px_sys px)" "logger_shape (px_log px)"
    "app = \<lparr>app_https_client = client, app_resolv = None, app_resolver_url = resolver_url opt,
       app_using_dns_poller = False, app_addrlen = length addr, app_called_once = False, app_ready = 0\<rparr>"
    "start_poller env opt app = Inr (px_app px, px_poller px)" "px_servers px = \<lparr>sv_udp = udp, sv_tcp = tcp\<rparr>"
    "px_calls px = [Ev_start Sigpipe, Ev_start Sigint, Ev_start Sigterm]" "px_opt px = opt"
proof -
  define log where "log = logging_init (se_fdopen env) (se_calloc_rb env) (se_calloc_storage env) (logfd opt) (opt_loglevel opt)
      (word_of_int (flight_recorder_size opt)) logging_start"
  obtain client fam ai addr udp sys1 tcp sys2 log1 app where s:
    "https_client_init (se_setopt env) opt (if opt_stats_interval opt \<noteq> 0 then Some (stat_init (opt_stats_interval opt) (se_stat env)) else None) =
       Inr client"
    "addr = set_port fam (listen_port opt) ai"
    "start_udp env fam addr [] = Inr (udp, sys1)" "start_tcp env opt fam addr sys1 = Inr (tcp, sys2)"
    "attempt (se_sys env) (drop_privileges opt) sys2 = Inr (px_sys px)"
    "log_done (logging_events_init (se_log0 env) (se_log1 env) log) = Inr (px_log px)"
    "app = \<lparr>app_https_client = client, app_resolv = None, app_resolver_url = resolver_url opt,
       app_using_dns_poller = False, app_addrlen = length addr, app_called_once = False, app_ready = 0\<rparr>"
    "start_poller env opt app = Inr (px_app px, px_poller px)" "px_servers px = \<lparr>sv_udp = udp, sv_tcp = tcp\<rparr>"
    "px_calls px = [Ev_start Sigpipe, Ev_start Sigint, Ev_start Sigterm]" "px_opt px = opt"
    using assms by (auto simp: main_start_def Let_def log_def [symmetric] split: if_split_asm)
  have "logger_shape log" unfolding log_def by (rule logger_shape_init)
  then have "logger_shape (px_log px)" using s(6) by (rule log_done_shape(1))
  moreover have "sys1 = [Bind_udp addr]" using s(3) by (auto simp: start_udp_def)
  ultimately show thesis using that s by blast
qed

lemma start_poller_cases:
  assumes "start_poller env opt app = Inr (app1, poller)"
  shows "app_https_client app1 = app_https_client app \<and> app_addrlen app1 = app_addrlen app \<and> app_resolv app1 = app_resolv app \<and>
     app_using_dns_poller app1 = (app_using_dns_poller app \<or> poller \<noteq> None) \<and> (\<forall>d. poller = Some d \<longrightarrow> poller_inv (d, ()))"
  using assms poller_init_inv
  by (fastforce simp: start_poller_def systemd_notify_ready_def split: if_split_asm option.split_asm)

lemma proxy_start_inv: "proxy_start st \<Longrightarrow> proxy_inv a st"
proof -
  assume "proxy_start st"
  then obtain px oenv info args env opt where st: "st = (px, [])" "main_options oenv info args = Inr opt" "main_start env opt = Inr px"
    by (cases st) (auto simp: proxy_start_def)
  from st(3) show ?thesis
  proof (cases rule: main_start_cases)
    case (1 client fam addr udp tcp sys app)
    have c: "https_ok client" "hc_fetches client = []" using https_init_ok [OF 1(1)] by auto
    have p: "app_https_client (px_app px) = client" "app_addrlen (px_app px) = length addr"
      "app_using_dns_poller (px_app px) = (px_poller px \<noteq> None)" "\<And>d. px_poller px = Some d \<Longrightarrow> poller_inv (d, ())"
      using start_poller_cases [OF 1(7)] by (auto simp: 1(6))
    have u: "u_addrlen udp = length addr" "filter is_answer (u_calls udp) = []" using 1(2) by (auto simp: start_udp_def dns_server_init_def)
    have t: "tcp = Some d \<Longrightarrow> \<exists>ps. tcp_inv d ps" for d
      using start_tcp_inv main_options_accepted [OF st(2)] 1(3) by blast
    have "served a (length addr) True [] {#} b (px_servers px)" for b
      using u t by (auto simp: served_def 1(8) udp_answers_def tcp_state_def)
    with c p 1(5) show ?thesis by (auto simp: st(1) proxy_inv_def app_good_def served_good)
  qed
qed

interpretation system: invariant_system proxy_start "proxy_step a" "proxy_inv a" for a
  by unfold_locales (fact proxy_start_inv, rule proxy_step_inv)

section \<open>Telling systemd\<close>

text \<open>Calls that all succeeded are appended in order, each having succeeded after those before it.\<close>

lemma attempt_all:
  "attempt ok cs sys = Inr past \<Longrightarrow> past = sys @ cs \<and> (\<forall>k < length cs. ok (sys @ take k cs) (cs ! k))"
proof (induction cs arbitrary: sys)
  case (Cons c cs)
  then have "ok sys c" "attempt ok cs (sys @ [c]) = Inr past" by (auto split: if_split_asm)
  with Cons.IH [of "sys @ [c]"] have "ok sys c" "past = sys @ c # cs" "\<forall>k < length cs. ok (sys @ c # take k cs) (cs ! k)"
    by simp_all
  then show ?case by (auto simp: less_Suc_eq_0_disj)
qed simp

text \<open>Only the bootstrap poller and a start without host name tell systemd that the program is ready.\<close>

definition unready :: "proxy_state \<Rightarrow> bool" where
  "unready = (\<lambda>(px, hist). proxy_supports_name_resolution (curl_proxy (px_opt px)) \<longrightarrow>
     px_poller px = None \<and> app_ready (px_app px) = 0)"

interpretation ready_sink: request_sink "recording (dns_server_cb fe re)" is_tcp "\<lambda>st. app_ready (fst (fst st)) = n"
  for fe re is_tcp n
proof unfold_locales
  fix s raddr req s'
  assume s: "app_ready (fst (fst s)) = n" "recording (dns_server_cb fe re) is_tcp raddr req s = Inr s'"
  obtain app sv hist where st: "s = ((app, sv), hist)" by (metis surj_pair)
  obtain app' sv' where s': "dns_server_cb fe re is_tcp raddr req (app, sv) = Inr (app', sv')"
      "s' = ((app', sv'), hist @ [(is_tcp, raddr, req)])"
    using s(2) by (auto simp: recording_def st)
  from s'(1) show "app_ready (fst (fst s')) = n"
    by (cases rule: dns_server_cb_cases) (use s(1) in \<open>simp_all add: st s'(2)\<close>)
qed

lemma unready_step: "proxy_step a st st' \<Longrightarrow> unready st \<Longrightarrow> unready st'"
proof (induction rule: proxy_step.induct)
  case (udp me fe re r px hist app sv hist')
  have "app_ready app = app_ready (px_app px)" using ready_sink.watcher_inv [OF _ udp(1), of False "app_ready (px_app px)"] by simp
  with udp(4) show ?case by (simp add: unready_def)
next
  case (tcp_read px d p me fe re r hist d' app sv hist')
  have "app_ready app = app_ready (px_app px)" using ready_sink.read_cb_inv [OF tcp_read(3), of True "app_ready (px_app px)"] by simp
  with tcp_read(6) show ?case by (simp add: unready_def)
next
  case (stats px hist)
  then show ?case by (auto simp: unready_def on_stat_def Let_def split: option.split)
qed (auto simp: unready_def)

lemma unready_start: "proxy_start st \<Longrightarrow> unready st"
proof -
  assume "proxy_start st"
  then obtain px env opt where st: "st = (px, [])" "main_start env opt = Inr px"
    by (cases st) (auto simp: proxy_start_def)
  from st(2) show ?thesis
  proof (cases rule: main_start_cases)
    case (1 client fam addr udp tcp sys app)
    show ?thesis
    proof (cases "proxy_supports_name_resolution (curl_proxy opt)")
      case True
      then have "px_app px = app" "px_poller px = None" using 1(7) by (simp_all add: start_poller_def)
      then show ?thesis by (simp add: st(1) unready_def 1(6))
    next
      case False
      then show ?thesis by (simp add: st(1) unready_def 1(10))
    qed
  qed
qed

interpretation readiness: invariant_system proxy_start "proxy_step a" unready for a
  by unfold_locales (fact unready_start, rule unready_step)

end
