(* ===== verification/Proxy_Shutdown.thy ===== *)
theory Proxy_Shutdown
  imports Proxy_System
begin

text \<open>
  The shutdown of the program: stopping returns and leaves only the watchers of the HTTPS client, and
  whatever that client still does, the final cleanup returns and calls every outstanding request back
  without touching the servers that are gone.
\<close>

section \<open>Destroying the channel of c-ares\<close>

text \<open>
  While its channel is destroyed c-ares reports that to every lookup, and it closes its sockets; for each
  socket it closes it calls the socket callback with both flags cleared.
\<close>

fun destroy_event :: "ares_event \<Rightarrow> bool" where
  "destroy_event (Lookup_done status result) \<longleftrightarrow> status = ARES_EDESTRUCTION"
| "destroy_event (Sock_state fd rd wr) \<longleftrightarrow> fd \<noteq> 0 \<and> \<not> rd \<and> \<not> wr"

definition destroys :: "ares_event list \<Rightarrow> dns_poller \<Rightarrow> bool" where
  "destroys es d \<longleftrightarrow> (\<forall>e \<in> set es. destroy_event e) \<and>
     (\<forall>fd. watched (p_io_events d) fd \<noteq> None \<longrightarrow> Sock_state fd False False \<in> set es)"

lemma ares_run_destroy:
  "\<forall>e \<in> set es. destroy_event e \<Longrightarrow> poller_ok d \<Longrightarrow>
   \<exists>d'. ares_run alloc ntop cb es (d, s) = Inr (d', s) \<and> poller_ok d' \<and>
     watched (p_io_events d') = (\<lambda>fd. if Sock_state fd False False \<in> set es then None else watched (p_io_events d) fd)"
proof (induction es arbitrary: d)
  case (Cons e es)
  show ?case
  proof (cases e)
    case (Sock_state fd rd wr)
    with Cons.prems(1) have e: "fd \<noteq> 0" "e = Sock_state fd False False" by simp_all
    obtain d1 where d1: "sock_state_cb fd False False d = Inr d1"
      by (cases "release_slot Poller_io fd (p_io_events d, p_calls d)") (simp add: sock_state_cb_def)
    note w = sock_state_cb_watch [OF Cons.prems(2) e(1) d1]
    from Cons.IH [OF _ w(1)] Cons.prems(1) obtain d' where "ares_run alloc ntop cb es (d1, s) = Inr (d', s)" "poller_ok d'"
        "watched (p_io_events d') = (\<lambda>fd. if Sock_state fd False False \<in> set es then None else watched (p_io_events d1) fd)"
      by auto
    with d1 e w(2) show ?thesis by (auto simp: fun_eq_iff)
  next
    case (Lookup_done status result)
    let ?d = "d\<lparr>p_request_ongoing := False\<rparr>"
    have "ares_cb alloc ntop cb status result (d, s) = Inr (?d, s)" "poller_ok ?d"
      using Lookup_done Cons.prems by (simp_all add: ares_cb_def Let_def poller_ok_def)
    moreover have io: "p_io_events ?d = p_io_events d" by simp
    ultimately show ?thesis using Cons.IH [of ?d, unfolded io] Cons.prems(1) Lookup_done by simp
  qed
qed simp

lemma poller_cleanup_destroy:
  assumes "destroys es d" "poller_ok d"
  shows "\<exists>d'. dns_poller_cleanup alloc ntop cb es (d, s) = Inr (d', s) \<and> \<not> ev_active (p_calls d') Poller_timer \<and>
     (\<forall>i. \<not> ev_active (p_calls d') (Poller_io i))"
proof -
  obtain d1 where d1: "ares_run alloc ntop cb es (d, s) = Inr (d1, s)" "poller_ok d1"
      "watched (p_io_events d1) = (\<lambda>fd. if Sock_state fd False False \<in> set es then None else watched (p_io_events d) fd)"
    using ares_run_destroy [of es d alloc ntop cb s] assms by (auto simp: destroys_def)
  then have "watched (p_io_events d1) fd = None" for fd using assms(1) unfolding destroys_def by (metis (full_types))
  then have "io_fd e = 0" if "e \<in> set (p_io_events d1)" for e using that watched_None_iff by blast
  then have "\<not> ev_active (p_calls d1) (Poller_io i)" for i
    using d1(2) by (auto simp: poller_ok_def slots_ok_def)
  with d1(1) show ?thesis by (simp add: dns_poller_cleanup_def ev_active_append)
qed

section \<open>Stopping\<close>

definition current_stat :: "proxy \<Rightarrow> stat" where
  "current_stat px = (case hc_stat (app_https_client (px_app px)) of Some s \<Rightarrow> s | None \<Rightarrow> px_stat px)"

text \<open>No watcher of the servers, the poller, the statistics, logging or \<open>main\<close> is active.\<close>

definition quiet :: "proxy \<Rightarrow> bool" where
  "quiet px \<longleftrightarrow>
     (\<forall>w \<in> {Sigpipe, Sigint, Sigterm}. \<not> ev_active (px_calls px) w) \<and>
     (\<forall>w \<in> {Logging_timer, Sigusr2, Flight_recorder_async}. \<not> ev_active (lg_calls (px_log px)) w) \<and>
     \<not> ev_active (s_calls (current_stat px)) Stats_timer \<and>
     \<not> ev_active (u_calls (sv_udp (px_servers px))) Udp_watcher \<and>
     (\<forall>d. sv_tcp (px_servers px) = Some d \<longrightarrow> d_heap d = Map.empty \<and> \<not> ev_active (d_calls d) Accept_watcher \<and>
        (\<forall>p. \<not> ev_active (d_calls d) (Read_watcher p) \<and> \<not> ev_active (d_calls d) (Timer_watcher p))) \<and>
     (\<forall>d. px_poller px = Some d \<longrightarrow> \<not> ev_active (p_calls d) Poller_timer \<and> (\<forall>i. \<not> ev_active (p_calls d) (Poller_io i)))"

lemma on_stat_simps [simp]:
  "px_poller (on_stat f px) = px_poller px" "px_servers (on_stat f px) = px_servers px" "px_log (on_stat f px) = px_log px"
  "px_calls (on_stat f px) = px_calls px" "px_opt (on_stat f px) = px_opt px" "current_stat (on_stat f px) = f (current_stat px)"
  "hc_fetches (app_https_client (px_app (on_stat f px))) = hc_fetches (app_https_client (px_app px))"
  by (auto simp: on_stat_def Let_def current_stat_def split: option.split)

lemma app_good_stopped:
  assumes "app_good a n u run ((app, sv), hist)" "\<And>d. tcp = Some d \<Longrightarrow> tcp_state False d" "tcp = None \<longleftrightarrow> sv_tcp sv = None"
  shows "app_good a n u False ((app\<lparr>app_resolv := r\<rparr>, \<lparr>sv_udp = dns_server_stop (sv_udp sv), sv_tcp = tcp\<rparr>), hist)"
proof -
  have "request_ok n b \<lparr>sv_udp = dns_server_stop (sv_udp sv), sv_tcp = tcp\<rparr> = request_ok n b sv" for b
    using assms(3) by (simp add: request_ok_def fun_eq_iff)
  with assms(1,2) show ?thesis by (simp add: app_good_def served_good served_def udp_answers_def dns_server_stop_def)
qed

lemma main_stop_correct:
  assumes inv: "proxy_inv a (px, hist)" and ev: "\<And>d. px_poller px = Some d \<Longrightarrow> destroys events d"
  shows "\<exists>px1. main_stop pl re alloc ntop events px = Inr px1 \<and> quiet px1 \<and> px_log px1 = logging_events_cleanup (px_log px) \<and>
     app_good a (app_addrlen (px_app px)) (px_poller px \<noteq> None) False ((px_app px1, px_servers px1), hist)"
proof -
  let ?app = "px_app px" and ?sv = "px_servers px"
  have good: "app_good a (app_addrlen ?app) (px_poller px \<noteq> None) True ((?app, ?sv), hist)"
    using inv by (simp add: proxy_inv_def)
  then have polled: "app_using_dns_poller ?app = (px_poller px \<noteq> None)" by (simp add: app_good_def)
  obtain poller where p: "(case px_poller px of None \<Rightarrow> Inr (None, (?app, ?sv))
       | Some d \<Rightarrow> if app_using_dns_poller ?app
           then bind_res (dns_poller_cleanup alloc ntop (dns_poll_cb pl re (p_hostname d)) events (d, (?app, ?sv))) (\<lambda>(d', s). Inr (Some d', s))
           else Inr (Some d, (?app, ?sv))) = Inr (poller, (?app, ?sv))"
      "\<And>d. poller = Some d \<Longrightarrow> \<not> ev_active (p_calls d) Poller_timer \<and> (\<forall>i. \<not> ev_active (p_calls d) (Poller_io i))"
  proof (cases "px_poller px")
    case (Some d)
    have "poller_ok d" using inv Some by (simp add: proxy_inv_def poller_inv_def)
    then obtain d' where "dns_poller_cleanup alloc ntop (dns_poll_cb pl re (p_hostname d)) events (d, (?app, ?sv)) = Inr (d', (?app, ?sv))"
        "\<not> ev_active (p_calls d') Poller_timer" "\<forall>i. \<not> ev_active (p_calls d') (Poller_io i)"
      using poller_cleanup_destroy [OF ev [OF Some], of alloc ntop "dns_poll_cb pl re (p_hostname d)" "(?app, ?sv)"] by blast
    with Some polled that [of "Some d'"] show ?thesis by simp
  qed (use that [of None] in simp)
  obtain tcp where t: "(case sv_tcp ?sv of None \<Rightarrow> Inr None
       | Some d \<Rightarrow> bind_res (returned (dns_server_tcp_stop d)) (\<lambda>d'. Inr (Some d'))) = Inr tcp" "tcp = None \<longleftrightarrow> sv_tcp ?sv = None"
      "\<And>d. tcp = Some d \<Longrightarrow> d_clients d = 0 \<and> d_heap d = Map.empty \<and> \<not> ev_active (d_calls d) Accept_watcher \<and>
        (\<forall>p. \<not> ev_active (d_calls d) (Read_watcher p) \<and> \<not> ev_active (d_calls d) (Timer_watcher p))"
  proof (cases "sv_tcp ?sv")
    case (Some d)
    obtain ps where "tcp_inv d ps" using proxy_inv_tcp(1) [OF inv Some] by blast
    then obtain d' where d': "returns (dns_server_tcp_stop d) d'" "d_clients d' = 0 \<and> d_heap d' = Map.empty \<and>
        \<not> ev_active (d_calls d') Accept_watcher \<and>
        (\<forall>p. \<not> ev_active (d_calls d') (Read_watcher p) \<and> \<not> ev_active (d_calls d') (Timer_watcher p))"
      using tcp_stop_correct by metis
    with Some that [of "Some d'"] show ?thesis by (simp add: returned_def)
  qed (use that [of None] in simp)
  define px0 where "px0 = px\<lparr>px_poller := poller, px_app := ?app\<lparr>app_resolv := None\<rparr>, px_log := logging_events_cleanup (px_log px),
     px_calls := px_calls px @ [Ev_stop Sigterm, Ev_stop Sigint, Ev_stop Sigpipe],
     px_servers := \<lparr>sv_udp = dns_server_stop (sv_udp ?sv), sv_tcp = tcp\<rparr>\<rparr>"
  have "main_stop pl re alloc ntop events px = Inr (on_stat stat_stop px0)"
    unfolding main_stop_def p(1) by (simp add: t(1) px0_def)
  moreover have "quiet (on_stat stat_stop px0)"
    using p(2) t(3) by (auto simp: quiet_def px0_def ev_active_append logging_events_cleanup_def stat_stop_def dns_server_stop_def)
  moreover have "app_good a (app_addrlen ?app) (px_poller px \<noteq> None) False ((px_app px0, px_servers px0), hist)"
    using app_good_stopped [OF good _ t(2)] t(3) by (simp add: px0_def tcp_state_def)
  then have "app_good a (app_addrlen ?app) (px_poller px \<noteq> None) False
      ((px_app (on_stat stat_stop px0), px_servers (on_stat stat_stop px0)), hist)" by (rule on_stat_good)
  ultimately show ?thesis by (auto simp: px0_def)
qed

section \<open>The last events and the final cleanup\<close>

lemma main_drain_good:
  "main_drain re es px = Inr px' \<Longrightarrow> \<forall>e \<in> set es. client_event_ok e \<Longrightarrow>
   app_good (re_ares re) n u run ((px_app px, px_servers px), hist) \<Longrightarrow>
   app_good (re_ares re) n u run ((px_app px', px_servers px'), hist) \<and> px_log px' = px_log px"
proof (induction es arbitrary: px)
  case (Cons e es)
  then obtain c sv where c: "client_event_cb (https_resp_cb re) e (app_https_client (px_app px), px_servers px) = Inr (c, sv)"
      "main_drain re es (px\<lparr>px_app := (px_app px)\<lparr>app_https_client := c\<rparr>, px_servers := sv\<rparr>) = Inr px'" by auto
  from Cons.IH [OF c(2)] client_event_good [OF c(1)] Cons.prems(2,3) show ?case by simp
qed simp

lemma main_finish_correct:
  assumes good: "app_good a n u run ((px_app px, px_servers px), hist)" and log: "logger_shape (px_log px)"
    and works: "curl_works env closing setopt_ok"
  shows "\<exists>px'. main_finish env closing re px = Inr px' \<and> hc_fetches (app_https_client (px_app px')) = [] \<and>
     udp_answers (px_servers px') = udp_answers (px_servers px) \<and> sv_tcp (px_servers px') = None"
proof -
  let ?c = "app_https_client (px_app px)" and ?sv = "\<lparr>sv_udp = dns_server_cleanup (sv_udp (px_servers px)), sv_tcp = None\<rparr>"
  have g: "reply_handler.good (requests_only ?sv) ?c ?sv"
    using good by (auto simp: app_good_def served_good served_def aborting_good)
  obtain c sv where r: "https_client_cleanup env (\<lambda>d r. https_resp_cb re d None) closing (?c, ?sv) = Inr (c, sv)"
    using aborting.client_cleanup_returns [OF g] works by (fastforce simp: curl_works_def)
  then have c: "sv = ?sv" "hc_fetches c = []"
    using aborting.client_cleanup_good [OF r g] works by (simp_all add: curl_works_def aborting_good)
  obtain l where "logging_cleanup (px_log px) = Inr l" using logging_cleanup_returns [OF log] by blast
  with r c show ?thesis unfolding main_finish_def Let_def abort_cong(1) [of env "https_resp_cb re"]
    by (simp add: udp_answers_def dns_server_cleanup_def)
qed

end
