(* ===== verification/Spec2Isabelle.thy ===== *)
theory Spec2Isabelle
  imports Tcp_Server Logging Stat Options Dns_Poller Proxy_Shutdown
begin

text \<open>
  A verification library for https_dns_proxy: a daemon that takes DNS requests over UDP and TCP, carries each
  one to a DNS-over-HTTPS resolver in a POST request, and sends the response back to the client that asked.

  \<^bold>\<open>The parts of the program and their theories.\<close> The program is single threaded around a libev loop; \<open>main\<close>
  creates the parts, and they talk to each other through callbacks.

  \<^item> \<open>Prelude\<close> and \<open>World\<close> hold what the parts share: C integers as words, C strings as byte or character lists,
    the result type \<open>res\<close> whose left side is the way a C function fails to return (a fatal log, an abort,
    undefined behaviour, a loop that never ends), the log of calls on libev and the operating system with the
    documented meaning of starting and stopping a watcher (\<open>ev_active\<close>), and transition systems: \<open>reach\<close> and
    the locale \<open>invariant_system\<close>.
  \<^item> \<open>Ring_Buffer\<close> is src/src/ring_buffer.c. The locale \<open>bounded_log\<close> states what a bounded log promises; pushing
    refines it, and a dump prints the last lines.
  \<^item> \<open>Logging\<close> is src/src/logging.c with its flight recorder: what one log call writes, flushes and records, that a
    fatal log dumps the recorder and exits, and what of the recorder survives failed allocations.
  \<^item> \<open>Stat\<close> is src/src/stat.c: printed lines and counters together account for every event.
  \<^item> \<open>Options\<close> is src/src/options.c: number parsing, the option loop and the checks; accepted options are in range.
  \<^item> \<open>Dns_Server\<close> is src/src/dns_server.c: the UDP server, EDNS sizes and truncation of long responses.
  \<^item> \<open>Dns_Server_Tcp\<close> is src/src/dns_server_tcp.c over an explicit heap of clients chained by pointers.
    \<open>Tcp_Clients\<close> has the invariant of the client list, \<open>Tcp_Framing\<close> the splitting of the byte stream
    against a reference definition, \<open>Tcp_Server\<close> the server as a transition system and its properties.
  \<^item> \<open>Io_Slots\<close> is the table of I/O watchers that the poller and the client both have; the locale
    \<open>socket_watcher\<close> is the contract with c-ares and libcurl, interpreted for both.
  \<^item> \<open>Dns_Poller\<close> is src/src/dns_poller.c: bootstrap resolution through c-ares. The locale \<open>addr_consumer\<close> is what
    the poller asks of the callback that gets the addresses.
  \<^item> \<open>Https_Client\<close> is src/src/https_client.c. \<open>Https_Transfers\<close> has its invariant and the locales \<open>reply_handler\<close>
    and \<open>abortable_handler\<close>, the contract with the response callback, under which the transfers keep any
    property of the requests that are under way; \<open>Https_Requests\<close> has the client as a transition system, with
    the result that each request is called back exactly once.
  \<^item> \<open>Addr_List\<close> is the comparison of address lists in src/src/main.c, with what it computes in terms of entries.
  \<^item> \<open>Proxy_Main\<close> is the callbacks and helpers of src/src/main.c, \<open>Proxy_Run\<close> the sequence of \<open>main\<close> itself: options,
    start, the first loop, stopping, the second loop and the cleanup. \<open>Proxy_System\<close> composes all parts into
    one transition system (\<open>proxy_step\<close>: one step for each callback of the loop) and proves its invariant by
    interpreting the locales of the parts on the callbacks of \<open>main\<close>; \<open>Proxy_Shutdown\<close> is about the end.

  \<^bold>\<open>How the models correspond to the code.\<close> A struct is a record with the fields of the code, a function is a
  definition of its name that takes the state and returns it updated; functions with the same static name in
  several files have a prefix (\<open>tcp_timer_cb\<close>, \<open>poller_timer_cb\<close>, \<open>client_timer_cb\<close>). The results of system calls
  and allocations are arguments, and what a part does to the outside is recorded in order in its list of calls. The request
  and response callbacks are arguments over an arbitrary state in the theories of the parts, and
  \<open>dns_server_cb\<close>, \<open>https_resp_cb\<close> and \<open>dns_poll_cb\<close> in the whole program. Pointers between parts (the statistics
  that the client and the callbacks share, the server that a request came from) are resolved explicitly:
  using a part that is gone is undefined behaviour in the model.

  \<^bold>\<open>Code outside.\<close> libev, libcurl and c-ares are parameters. A call into libcurl or c-ares delivers a sequence of
  events, the callbacks it makes, which the model runs in order. What is assumed of them is named: \<open>events_ok\<close>
  and \<open>env_ok\<close> (sockets are not 0, a data callback has as many bytes as it says, and none is made while a handle
  is added or removed), \<open>curl_works\<close> (also that its calls succeed), \<open>ares_ok\<close> (deleting an existing record removes
  that one only, a written message has a header; writing may fail), \<open>destroys\<close> (during \<open>ares_destroy\<close> lookups
  end with that status and the sockets are reported as closed). The witnesses have instances of all of them.

  \<^bold>\<open>Loops.\<close> Loops that end are \<open>fun\<close> or \<open>function\<close> with a measure. Loops of the code that may run for ever are
  \<open>partial_function (option)\<close>, where \<open>None\<close> is not returning; the theorems about them state that they return,
  or, for the inputs where they do not, that the result is \<open>None\<close>. There is no fuel. The fifty attempts to send on a TCP
  connection and the fixed table sizes (12 sockets, 8 connections, 65535 bytes of response) are those of the code.

  \<^bold>\<open>What the properties show.\<close> This theory has those of the whole program: every datagram it sends in its first
  loop answers a request of its own, from a response with the id and to the address of that request; HTTPS client,
  TCP server, poller and flight recorder keep their invariants and agree with each other (of the recorder only the
  shape, since a failed allocation leaves a hole in it);
  shutting down completes from every reachable state; privileges are dropped in order and after binding,
  which the start-up computes by passing on the list of system calls made so far. The theories of the parts have theirs
  next to the definitions. Where the code does not do what it means to, a theorem states what it does: the 16 bit
  sum of the TCP length prefix, truncation that retries a failing deletion, \<open>accept\<close> with EAGAIN, resending
  without delay, a dump after a failed allocation, address comparison by first match, and the missing readiness
  notification with a resolving proxy.

  \<^bold>\<open>Not modelled.\<close> Text that is only printed or logged: \<open>options_show_usage\<close>, \<open>dump_io_events\<close>, the version lines of
  \<open>main\<close>, and log calls inside the parts except fatal ones, which end the process (the whole program has log
  calls as steps of their own). Memory that a callback frees is not tracked except for TCP clients and the ring buffer.
  Times are rational numbers, not doubles. A fatal log is that of a build without DEBUG. The values of the options
  set on a transfer are not kept. Time passes only through the values of \<open>ev_now\<close> and the timers that fire. The answers on TCP
  connections are judged one at a time, not against the history of the whole
  program. Build scripts, tests, service files and the munin plugin are not part of the C program.
\<close>

section \<open>Every answer belongs to a request\<close>

text \<open>
  C1. End to end: in every state the program reaches, the datagrams it has sent are, one by one and in order, the
  answers to distinct requests it received. Each goes to the address the request came from, the resolver's
  response it carries (whole, or cut by truncation) has the id of the request, and no request is answered
  twice.
\<close>

theorem proxy_answers_only_requests:
  assumes "reach proxy_start (proxy_step a) (px, hist)"
  shows "\<exists>past. mset (map (origin \<circ> fst) past) \<subseteq># origins (app_addrlen (px_app px)) hist \<and>
     list_all2 (answers a) past (udp_answers (px_servers px))"
proof -
  have "served a (app_addrlen (px_app px)) True hist (mset (map f_cb_data (hc_fetches (app_https_client (px_app px)))))
      (hc_stat (app_https_client (px_app px)) \<noteq> None) (px_servers px)"
    using system.reach_inv [OF assms] by (simp add: proxy_inv_def app_good_def served_good)
  then obtain past where "image_mset (origin \<circ> the) (mset (map f_cb_data (hc_fetches (app_https_client (px_app px))))) +
      mset (map (origin \<circ> fst) past) \<subseteq># origins (app_addrlen (px_app px)) hist"
      "list_all2 (answers a) past (udp_answers (px_servers px))" unfolding served_def by blast
  then show ?thesis by (meson mset_subset_eq_add_right subset_mset.order_trans)
qed

text \<open>
  C2. The components stay consistent with each other in every state the program reaches: the HTTPS client and the
  TCP server keep their invariants; the poll timer of the bootstrap poller runs and its table of sockets
  matches the active watchers; the flight recorder of the logger has its size and a valid index, whatever
  allocations fail; the two places that know whether there is a poller agree; and every transfer carries a
  request whose id is that of its DNS message, that counts in the statistics exactly when there are any, and
  whose server exists.
\<close>

theorem proxy_components_consistent:
  assumes "reach proxy_start (proxy_step a) (px, hist)"
  shows "https_ok (app_https_client (px_app px)) \<and>
     (\<forall>d. sv_tcp (px_servers px) = Some d \<longrightarrow> (\<exists>ps. tcp_inv d ps)) \<and>
     (\<forall>d. px_poller px = Some d \<longrightarrow> ev_active (p_calls d) Poller_timer \<and> slots_ok Poller_io (p_io_events d, p_calls d)) \<and>
     logger_shape (px_log px) \<and>
     app_using_dns_poller (px_app px) = (px_poller px \<noteq> None) \<and> u_addrlen (sv_udp (px_servers px)) = app_addrlen (px_app px) \<and>
     (\<forall>x \<in> set (hc_fetches (app_https_client (px_app px))). \<exists>q. f_cb_data x = Some q \<and>
        rq_tx_id q = ntohs (rq_dns_req q ! 0) (rq_dns_req q ! 1) \<and>
        rq_stat q = (hc_stat (app_https_client (px_app px)) \<noteq> None) \<and> (rq_is_tcp q \<longrightarrow> sv_tcp (px_servers px) \<noteq> None))"
proof -
  have inv: "proxy_inv a (px, hist)" by (rule system.reach_inv [OF assms])
  then have s: "https_ok (app_https_client (px_app px))" "app_using_dns_poller (px_app px) = (px_poller px \<noteq> None)"
      "served a (app_addrlen (px_app px)) True hist (mset (map f_cb_data (hc_fetches (app_https_client (px_app px)))))
        (hc_stat (app_https_client (px_app px)) \<noteq> None) (px_servers px)" "logger_shape (px_log px)"
    by (simp_all add: proxy_inv_def app_good_def served_good)
  have q: "\<exists>q. f_cb_data x = Some q \<and> request_ok (app_addrlen (px_app px)) (hc_stat (app_https_client (px_app px)) \<noteq> None) (px_servers px) q"
    if "x \<in> set (hc_fetches (app_https_client (px_app px)))" for x
    using s(3) that by (simp add: served_def)
  have "u_addrlen (sv_udp (px_servers px)) = app_addrlen (px_app px)" using s(3) by (simp add: served_def)
  moreover have "\<forall>d. px_poller px = Some d \<longrightarrow> ev_active (p_calls d) Poller_timer \<and> slots_ok Poller_io (p_io_events d, p_calls d)"
    using inv by (simp add: proxy_inv_def poller_inv_def poller_ok_def)
  ultimately show ?thesis using s(1,2,4) proxy_inv_tcp(1) [OF inv] q unfolding request_ok_def by blast
qed

section \<open>Starting and stopping\<close>

text \<open>
  C3. Shutting down completes from every state the program reaches. When c-ares destroys its channel as documented,
  the first part returns and leaves no watcher of the servers, the poller and its sockets, statistics,
  logging or signals active. Whatever events of the HTTPS client follow in the second loop, the final part
  then returns, with no transfer left; it sends no answer, although the TCP server is freed while requests of
  TCP clients may still be under way.
\<close>

theorem shutdown_completes:
  assumes "reach proxy_start (proxy_step a) (px, hist)" "re_ares re = a" "\<And>d. px_poller px = Some d \<Longrightarrow> destroys events d"
  shows "\<exists>px1. main_stop pl re alloc ntop events px = Inr px1 \<and> quiet px1 \<and>
     (\<forall>es px2 env closing setopt_ok. (\<forall>e \<in> set es. client_event_ok e) \<longrightarrow> main_drain re es px1 = Inr px2 \<longrightarrow>
        curl_works env closing setopt_ok \<longrightarrow>
        (\<exists>px3. main_finish env closing re px2 = Inr px3 \<and> hc_fetches (app_https_client (px_app px3)) = [] \<and>
           sv_tcp (px_servers px3) = None \<and> udp_answers (px_servers px3) = udp_answers (px_servers px2)))"
proof -
  have inv: "proxy_inv a (px, hist)" by (rule system.reach_inv [OF assms(1)])
  obtain px1 where px1: "main_stop pl re alloc ntop events px = Inr px1" "quiet px1"
      "px_log px1 = logging_events_cleanup (px_log px)"
      "app_good a (app_addrlen (px_app px)) (px_poller px \<noteq> None) False ((px_app px1, px_servers px1), hist)"
    using main_stop_correct [OF inv assms(3)] by blast
  have log: "logger_shape (px_log px1)" using inv by (simp add: px1(3) proxy_inv_def)
  have "\<exists>px3. main_finish env closing re px2 = Inr px3 \<and> hc_fetches (app_https_client (px_app px3)) = [] \<and>
      sv_tcp (px_servers px3) = None \<and> udp_answers (px_servers px3) = udp_answers (px_servers px2)"
    if "\<forall>e \<in> set es. client_event_ok e" "main_drain re es px1 = Inr px2" "curl_works env closing setopt_ok"
    for es px2 env closing setopt_ok
    using main_drain_good [OF that(2,1) px1(4) [folded assms(2)]] main_finish_correct [OF _ _ that(3), where re = re] log by metis
  with px1(1,2) show ?thesis by blast
qed


text \<open>
  C31. With a proxy that resolves names itself the program never reports that it is ready: in no state that it
  reaches has systemd been notified, so a service of type notify is stopped when its start times out.
\<close>

theorem never_ready_with_resolving_proxy:
  assumes "reach proxy_start (proxy_step a) (px, hist)" "proxy_supports_name_resolution (curl_proxy (px_opt px))"
  shows "app_ready (px_app px) = 0 \<and> px_poller px = None"
  using readiness.reach_inv [OF assms(1)] assms(2) by (simp add: unready_def)

section \<open>Witnesses\<close>

text \<open>A machine on which everything works; the resolver is given by address, so there is no bootstrap polling.\<close>

definition example_start :: start_env where
  "example_start = \<lparr>se_fdopen = True, se_calloc_rb = True, se_calloc_storage = True, se_log0 = example_log_env,
     se_log1 = example_log_env, se_curl_init = True, se_curl_info = True, se_setopt = \<lambda>_. True, se_stat = example_stat,
     se_getaddrinfo = \<lambda>_. Some (AF_INET, replicate 16 0), se_udp_sock = 5, se_udp_bind = \<lambda>_ _. 0, se_tcp_alloc = True,
     se_listen = \<lambda>_. \<lparr>le_socket = 6, le_family = AF_INET, le_addrlen = 16, le_bind = 0, le_listen = 0, le_getfl = 0, le_setfl = 0\<rparr>,
     se_sys = \<lambda>_ _. True, se_url_host = \<lambda>_. Some ''8.8.8.8'', se_pton = \<lambda>_. 1,
     se_poller = example_poller_env, se_systemd = True\<rparr>"

lemma example_start_simps [simp]:
  "se_fdopen example_start" "se_calloc_rb example_start" "se_calloc_storage example_start" "se_curl_init example_start"
  "se_curl_info example_start" "se_tcp_alloc example_start" "se_setopt example_start = (\<lambda>_. True)" "se_sys example_start = (\<lambda>_ _. True)"
  "se_log0 example_start = example_log_env" "se_log1 example_start = example_log_env" "se_udp_sock example_start = 5"
  "se_udp_bind example_start sys addr = 0" "se_getaddrinfo example_start host = Some (AF_INET, replicate 16 0)"
  by (simp_all add: example_start_def)

lemma example_main_options:
  "main_options example_opt_env True [] = Inr options_init"
  by (simp add: main_options_def options_parse_args_def options_init_def resolve_user_def resolve_group_def
        check_options_def MAX_TCP_CLIENTS_def log_consts Let_def DEFAULT_HTTP_VERSION_def)

lemma example_logging:
  assumes "flight_recorder l = None" "loglevel l = LOG_ERROR"
  shows "\<exists>l'. log_done (logging_events_init e0 e1 l) = Inr l' \<and> flight_recorder l' = None"
proof -
  have "log_line e1 ''logging.c'' 75 LOG_DEBUG (Some ''starting SIGUSR2 handler'') l = Some (Inr l)"
    using assms by (subst log_line.simps) (simp add: log_consts)
  then show ?thesis using assms by (simp add: log_done_def logging_events_init_def log_consts LOG_FLUSH_LEVEL_def)
qed

definition plain_options :: "options \<Rightarrow> bool" where
  "plain_options opt \<longleftrightarrow> opt_stats_interval opt = 0 \<and> tcp_client_limit opt = 20 \<and> opt_loglevel opt = LOG_ERROR \<and>
     flight_recorder_size opt = 0 \<and> use_http_version opt = 2"

definition started_app :: "options \<Rightarrow> app_state" where
  "started_app opt = \<lparr>app_https_client = idle_client\<lparr>hc_opt := opt, hc_calls := [Ev_set Reset_timer (of_int (conn_loss_time opt)) 0]\<rparr>,
     app_resolv = None, app_resolver_url = resolver_url opt, app_using_dns_poller = False, app_addrlen = 16, app_called_once = False, app_ready = 0\<rparr>"

lemma example_started_with:
  assumes "plain_options opt" "env = example_start\<lparr>se_url_host := url_host, se_pton := pton\<rparr>"
    and "start_poller env opt (started_app opt) = Inr (app, poller)"
  shows "\<exists>px. main_start env opt = Inr px \<and> px_opt px = opt \<and> px_poller px = poller \<and> px_app px = app"
proof -
  let ?log = "logging_init True True True (logfd opt) (opt_loglevel opt) (word_of_int (flight_recorder_size opt)) logging_start"
  have "flight_recorder ?log = None" "loglevel ?log = LOG_ERROR"
    using assms(1) by (simp_all add: logging_init_def plain_options_def logging_start_def ring_buffer_init_def)
  then obtain l where l: "log_done (logging_events_init example_log_env example_log_env ?log) = Inr l"
    using example_logging by blast
  have c: "(https_client_init (\<lambda>_. True) opt None :: request option https_client res) = Inr (idle_client\<lparr>hc_opt := opt,
       hc_calls := [Ev_set Reset_timer (of_int (conn_loss_time opt)) 0]\<rparr>)"
    by (simp add: https_client_init_def https_client_multi_init_def multi_options_def idle_client_def)
  have a: "attempt (\<lambda>_ _. True) cs sys = Inr (sys @ cs)" for cs sys by (induction cs arbitrary: sys) simp_all
  define addr where "addr = set_port AF_INET (listen_port opt) (replicate 16 0)"
  have len: "length addr = 16" by (simp add: addr_def set_port_def htons_def)
  obtain tcp sys where t: "start_tcp env opt AF_INET addr [Bind_udp addr] = Inr (tcp, sys)"
    using assms(1) by (simp add: assms(2) start_tcp_def example_start_def dns_server_tcp_create_def get_tcp_listen_sock_def plain_options_def)
  have u: "start_udp env AF_INET addr [] = Inr (\<lparr>u_sock = 5, u_addrlen = 16, u_calls = [Ev_start Udp_watcher]\<rparr>, [Bind_udp addr])"
    by (simp add: start_udp_def dns_server_init_def get_listen_sock_def len assms(2))
  have env: "se_fdopen env" "se_calloc_rb env" "se_calloc_storage env" "se_curl_init env" "se_curl_info env"
      "se_setopt env = (\<lambda>_. True)" "se_sys env = (\<lambda>_ _. True)" "se_log0 env = example_log_env" "se_log1 env = example_log_env"
      "se_getaddrinfo env host = Some (AF_INET, replicate 16 0)" for host by (simp_all add: assms(2))
  show ?thesis
    using assms(1,3) l c t a u
    by (simp add: main_start_def plain_options_def Let_def get_listen_address_def addr_def [symmetric] len started_app_def env)
qed

lemma example_started:
  assumes "plain_options opt"
  shows "\<exists>px app. main_start example_start opt = Inr px \<and> px_opt px = opt \<and> px_poller px = None \<and> px_app px = app \<and>
     app_https_client app = app_https_client (started_app opt) \<and> app_addrlen app = 16 \<and> \<not> app_using_dns_poller app"
proof -
  have env: "example_start = example_start\<lparr>se_url_host := \<lambda>_. Some ''8.8.8.8'', se_pton := \<lambda>_. 1\<rparr>" by (simp add: example_start_def)
  have "hostname_from_url (se_url_host example_start) (se_pton example_start) (resolver_url opt) 255 = Inr None"
    by (simp add: hostname_from_url_def is_ipv4_address_def example_start_def)
  then obtain app where p: "start_poller example_start opt (started_app opt) = Inr (app, None)"
      "app_https_client app = app_https_client (started_app opt)"
      "app_addrlen app = 16" "\<not> app_using_dns_poller app"
    by (cases "proxy_supports_name_resolution (curl_proxy opt)")
      (auto simp: start_poller_def systemd_notify_ready_def started_app_def)
  with example_started_with [OF assms env p(1)] show ?thesis by blast
qed

definition example_reply :: bytes where
  "example_reply = [18, 52, 129, 128, 0, 1, 0, 0, 0, 0, 0, 0, 0]"

text \<open>A request from a UDP client, taken by curl.\<close>

lemma example_request_step:
  assumes "app_https_client app = idle_client\<lparr>hc_opt := opt, hc_calls := calls\<rparr>" "use_http_version opt = 2"
    and "\<not> app_using_dns_poller app" "app_addrlen app = 16"
  shows "watcher_cb \<lparr>malloc_ok = \<lambda>_. True, junk = \<lambda>_. 0\<rparr> (recording (dns_server_cb example_fetch re))
      (Datagram (replicate 16 7) example_query) ((app, sv), []) =
    Inr ((app\<lparr>app_https_client := (app_https_client app)\<lparr>hc_fetches := [\<lparr>f_curl = 1, f_id = 0x1234,
        f_cb_data = Some \<lparr>rq_is_tcp = False, rq_dns_req = example_query, rq_stat = False, rq_start_tstamp = 0, rq_tx_id = 0x1234,
          rq_raddr = replicate 16 7\<rparr>, f_buf = None, f_buflen = 0\<rparr>]\<rparr>\<rparr>, sv), [(False, replicate 16 7, example_query)])"
  using assms
  by (simp add: watcher_cb_def recording_def dns_server_cb_def example_query_def DNS_REQUEST_BUFFER_SIZE_def DNS_HEADER_LENGTH_def
      example_fetch_def Let_def new_request_def https_client_fetch_def https_fetch_ctx_init_def setopt_all https_set_request_version_def
      idle_client_def example_curl_def ntohs_def)

text \<open>The resolver's reply to it.\<close>

definition example_event :: client_event where
  "example_event = Client_sock example_curl [Ev_write 1 example_reply 1 13] CURLM_OK [Msg_done 1 0]"

lemma example_reply_step:
  assumes "hc_fetches c = [\<lparr>f_curl = 1, f_id = 0x1234, f_cb_data = Some \<lparr>rq_is_tcp = False, rq_dns_req = example_query,
      rq_stat = False, rq_start_tstamp = 0, rq_tx_id = 0x1234, rq_raddr = replicate 16 7\<rparr>, f_buf = None, f_buflen = 0\<rparr>]"
    and "hc_stat c = None"
  shows "\<exists>c'. client_event_cb (https_resp_cb (example_world a)) example_event (c, sv) =
    Inr (c', sv\<lparr>sv_udp := (sv_udp sv)\<lparr>u_calls := u_calls (sv_udp sv) @
      [Sendto (u_sock (sv_udp sv)) (take (u_addrlen (sv_udp sv)) (replicate 16 7)) example_reply]\<rparr>\<rparr>)"
proof -
  let ?q = "\<lparr>rq_is_tcp = False, rq_dns_req = example_query, rq_stat = False, rq_start_tstamp = 0, rq_tx_id = 0x1234,
    rq_raddr = replicate 16 7\<rparr>"
  let ?x = "\<lparr>f_curl = 1, f_id = 0x1234, f_cb_data = Some ?q, f_buf = Some (example_reply @ [0]), f_buflen = 13\<rparr>"
  define c1 where "c1 = c\<lparr>hc_fetches := [?x]\<rparr>"
  have run: "curl_run (ce_mem example_curl) [Ev_write 1 example_reply 1 13] c = Inr c1"
    using assms(1) by (simp add: write_buffer_def c1_def example_reply_def example_curl_def DOH_MAX_RESPONSE_SIZE_def Let_def)
  obtain c2 where rem: "curl_run (ce_mem example_curl) (ce_removing example_curl 1) c1 = Inr c2"
    using curl_run_returns env_okD(1) [OF example_curl_ok] by blast
  then have c2: "hc_fetches c2 = [?x]" "hc_stat c2 = None"
    using env_okD(3) [OF example_curl_ok rem] assms(2) rem
    by (auto simp: c1_def example_curl_def)
  have "\<not> faulty_response (ce_info example_curl 1) 0"
    by (simp add: faulty_response_def example_curl_def curl_consts DOH_CONTENT_TYPE_def)
  then obtain c3 where p: "https_fetch_ctx_process_response (ce_debug example_curl) (ce_info example_curl 1) 0 c2 = Inr (False, c3)"
      "hc_stat c3 = None" using c2(2)
    by (simp add: https_fetch_ctx_process_response_def note_timeout_def version_note_def count_reuse_def version_debug_def
        example_curl_def curl_consts)
  let ?sv = "sv\<lparr>sv_udp := (sv_udp sv)\<lparr>u_calls :=
      u_calls (sv_udp sv) @ [Sendto (u_sock (sv_udp sv)) (take (u_addrlen (sv_udp sv)) (replicate 16 7)) example_reply]\<rparr>\<rparr>"
  have cb: "https_resp_cb (example_world a) (Some ?q) (Some example_reply) (None, sv) = Inr (None, ?sv)"
    by (simp add: https_resp_cb_def example_reply_def DNS_HEADER_LENGTH_def ntohs_def forward_response_def dns_server_respond_def
        DNS_SIZE_LIMIT_def)
  have env: "ce_remove_ok example_curl 1" "take 13 (example_reply @ [0]) = example_reply"
    by (simp_all add: example_curl_def example_reply_def)
  have x: "hc_fetches c1 = [?x]" by (simp add: c1_def)
  obtain c4 where "https_fetch_ctx_cleanup example_curl (https_resp_cb (example_world a)) 0 0 (c1, sv) = Inr (c4, ?sv)"
    using rem p c2 cb env x by (simp add: https_fetch_ctx_cleanup_def Let_def)
  then have "check_multi_info example_curl (https_resp_cb (example_world a)) [Msg_done 1 0] (c1, sv) = Inr (c4, ?sv)"
    using x by simp
  with run show ?thesis by (simp only: example_event_def client_event_cb.simps client_sock_cb_def prod.case bind_res.simps simp_thms if_True) blast
qed

lemma example_plain: "plain_options options_init"
  by (simp add: plain_options_def options_init_def DEFAULT_HTTP_VERSION_def)

text \<open>The program has answered one request.\<close>

lemma example_answered:
  "\<exists>px. reach proxy_start (proxy_step a) (px, [(False, replicate 16 7, example_query)]) \<and>
     length (udp_answers (px_servers px)) = 1 \<and> app_addrlen (px_app px) = 16"
proof -
  obtain px where px: "main_start example_start options_init = Inr px"
      "app_addrlen (px_app px) = 16" "\<not> app_using_dns_poller (px_app px)"
      "app_https_client (px_app px) = idle_client\<lparr>hc_opt := options_init, hc_calls := [Ev_set Reset_timer (of_int (conn_loss_time options_init)) 0]\<rparr>"
    using example_started [OF example_plain] by (auto simp: started_app_def)
  have start: "proxy_start (px, [])" by (rule proxy_startI [OF example_main_options px(1)])
  then have r0: "reach proxy_start (proxy_step a) (px, [])" by (rule reach_init)
  have none: "udp_answers (px_servers px) = []"
    by (rule main_start_cases [OF px(1)]) (auto simp: udp_answers_def start_udp_def dns_server_init_def)
  define q where "q = \<lparr>rq_is_tcp = False, rq_dns_req = example_query, rq_stat = False, rq_start_tstamp = 0, rq_tx_id = 0x1234,
    rq_raddr = replicate 16 (7 :: u8)\<rparr>"
  define app1 where "app1 = (px_app px)\<lparr>app_https_client := (app_https_client (px_app px))\<lparr>hc_fetches :=
    [\<lparr>f_curl = 1, f_id = 0x1234, f_cb_data = Some q, f_buf = None, f_buflen = 0\<rparr>]\<rparr>\<rparr>"
  have ok: "fetch_ok example_fetch" "re_ares (example_world a) = a"
    using example_curl_ok by (simp_all add: fetch_ok_def example_fetch_def example_world_def)
  have v: "use_http_version options_init = 2" using example_plain by (simp add: plain_options_def)
  have "proxy_step a (px, []) (px\<lparr>px_app := app1, px_servers := px_servers px\<rparr>, [(False, replicate 16 7, example_query)])"
    using proxy_step.udp [OF _ ok, where px = px] example_request_step [OF px(4) v px(3,2)] unfolding app1_def q_def by blast
  with r0 have r1: "reach proxy_start (proxy_step a) (px\<lparr>px_app := app1, px_servers := px_servers px\<rparr>, [(False, replicate 16 7, example_query)])"
    by (rule reach_step)
  have f: "hc_fetches (app_https_client app1) = [\<lparr>f_curl = 1, f_id = 0x1234, f_cb_data = Some q, f_buf = None, f_buflen = 0\<rparr>]"
      "hc_stat (app_https_client app1) = None" by (simp_all add: app1_def px(4) idle_client_def)
  obtain c sv where c: "client_event_cb (https_resp_cb (example_world a)) example_event (app_https_client app1, px_servers px) = Inr (c, sv)"
      "sv = (px_servers px)\<lparr>sv_udp := (sv_udp (px_servers px))\<lparr>u_calls := u_calls (sv_udp (px_servers px)) @
        [Sendto (u_sock (sv_udp (px_servers px))) (take (u_addrlen (sv_udp (px_servers px))) (replicate 16 7)) example_reply]\<rparr>\<rparr>"
    using example_reply_step [OF f [unfolded q_def]] by blast
  have "client_event_ok example_event" using example_curl_ok by (simp add: example_event_def example_reply_def)
  from reach_step [OF r1 proxy_step.client [OF _ this ok(2)]] c(1)
  have "reach proxy_start (proxy_step a) (px\<lparr>px_app := app1\<lparr>app_https_client := c\<rparr>, px_servers := sv\<rparr>, [(False, replicate 16 7, example_query)])"
    by fastforce
  moreover have "length (udp_answers sv) = 1" using none by (simp add: c(2) udp_answers_def)
  ultimately show ?thesis using px(2) by (intro exI) (auto simp: app1_def)
qed

theorem proxy_answers_only_requests_witness:
  "\<exists>(px :: proxy) past. length past = 1 \<and> mset (map (origin \<circ> fst) past) \<subseteq># origins 16 [(False, replicate 16 7, example_query)] \<and>
     list_all2 (answers example_ares) past (udp_answers (px_servers px))"
proof -
  obtain px where px: "reach proxy_start (proxy_step example_ares) (px, [(False, replicate 16 7, example_query)])"
      "length (udp_answers (px_servers px)) = 1" "app_addrlen (px_app px) = 16" using example_answered by blast
  from proxy_answers_only_requests [OF px(1)] obtain past
    where past: "mset (map (origin \<circ> fst) past) \<subseteq># origins 16 [(False, replicate 16 7, example_query)]"
      "list_all2 (answers example_ares) past (udp_answers (px_servers px))" unfolding px(3) by blast
  moreover have "length past = 1" using list_all2_lengthD [OF past(2)] px(2) by simp
  ultimately show ?thesis by (intro exI conjI)
qed

text \<open>The program with a bootstrap poller that has opened a socket.\<close>

definition example_boot :: options where
  "example_boot = options_init\<lparr>bootstrap_dns := ''8.8.8.8,1.1.1.1'', source_addr := Some ''192.0.2.1''\<rparr>"

lemma example_booting:
  "\<exists>px. reach proxy_start (proxy_step a) (px, []) \<and> px_poller px = Some example_polling"
proof -
  let ?env = "example_start\<lparr>se_url_host := \<lambda>_. Some ''dns.google'', se_pton := \<lambda>_. 0\<rparr>"
  have opt: "main_options example_opt_env True [(CHR ''b'', ''8.8.8.8,1.1.1.1''), (CHR ''S'', ''192.0.2.1'')] = Inr example_boot"
    by (simp add: main_options_def options_parse_args_def options_init_def resolve_user_def resolve_group_def apply_option_def
        check_options_def MAX_TCP_CLIENTS_def log_consts Let_def DEFAULT_HTTP_VERSION_def example_boot_def)
  have plain: "plain_options example_boot" using example_plain by (simp add: plain_options_def example_boot_def)
  have host: "hostname_from_url (\<lambda>_. Some ''dns.google'') (\<lambda>_. 0) url 255 = Inr (Some ''dns.google'')" for url
    by (simp add: hostname_from_url_def is_ipv4_address_def)
  have "dns_poller_init (se_poller ?env) (bootstrap_dns example_boot) (bootstrap_dns_polling_interval example_boot) (source_addr example_boot)
      ''dns.google'' (if ipv4 example_boot then AF_INET else AF_UNSPEC) = Inr example_poller"
    using example_poller_init by (simp add: example_boot_def options_init_def example_start_def)
  moreover have "\<not> proxy_supports_name_resolution (curl_proxy example_boot)"
    by (simp add: example_boot_def options_init_def proxy_supports_name_resolution_def)
  ultimately have "start_poller ?env example_boot (started_app example_boot) =
      Inr ((started_app example_boot)\<lparr>app_using_dns_poller := True\<rparr>, Some example_poller)"
    using host by (simp add: start_poller_def)
  from example_started_with [OF plain refl this] obtain px
    where px: "main_start ?env example_boot = Inr px" "px_poller px = Some example_poller" by blast
  have "reach proxy_start (proxy_step a) (px, [])" by (intro reach_init proxy_startI [OF opt px(1)])
  moreover have "proxy_step a (px, []) (px\<lparr>px_poller := Some example_polling, px_app := px_app px, px_servers := px_servers px\<rparr>, [])"
    by (rule proxy_step.poll [OF px(2) example_poller_step, of example_poll "example_world a"])
      (use example_curl_ok in \<open>simp_all add: poll_ok_def example_poll_def example_world_def\<close>)
  ultimately show ?thesis using reach_step by fastforce
qed

theorem proxy_components_consistent_witness:
  "\<exists>px :: proxy. px_poller px = Some example_polling \<and> slots_ok Poller_io (p_io_events example_polling, p_calls example_polling) \<and>
     https_ok (app_https_client (px_app px)) \<and> app_using_dns_poller (px_app px) \<and> logger_shape (px_log px)"
proof -
  obtain px where px: "reach proxy_start (proxy_step example_ares) (px, [])" "px_poller px = Some example_polling"
    using example_booting by blast
  with proxy_components_consistent [OF px(1)] show ?thesis by (intro exI [of _ px]) simp
qed

theorem shutdown_completes_witness:
  "\<exists>px px1. px_poller px = Some example_polling \<and> ev_active (p_calls example_polling) (Poller_io 0) \<and>
     main_stop example_poll (example_world example_ares) True (\<lambda>_. [])
       [Lookup_done ARES_EDESTRUCTION None, Sock_state 7 False False] px = Inr px1 \<and> quiet px1 \<and>
     (\<exists>px3. main_finish example_curl [] (example_world example_ares) px1 = Inr px3)"
proof -
  let ?es = "[Lookup_done ARES_EDESTRUCTION None, Sock_state 7 False False]"
  obtain px where px: "reach proxy_start (proxy_step example_ares) (px, [])" "px_poller px = Some example_polling"
    using example_booting by blast
  have re: "re_ares (example_world example_ares) = example_ares" by (simp add: example_world_def)
  have active: "ev_active (p_calls example_polling) (Poller_io 0)" by (simp add: example_polling_def ev_active_def)
  have "destroys ?es d" if "px_poller px = Some d" for d
    using that px(2) by (auto simp: destroys_def example_polling_def watched_def split: option.splits if_split_asm)
  from shutdown_completes [OF px(1) re this, of example_poll True "\<lambda>_. []"]
  obtain px1 where px1: "main_stop example_poll (example_world example_ares) True (\<lambda>_. []) ?es px = Inr px1" "quiet px1"
      "\<forall>es px2 env closing setopt_ok. (\<forall>e \<in> set es. client_event_ok e) \<longrightarrow> main_drain (example_world example_ares) es px1 = Inr px2 \<longrightarrow>
        curl_works env closing setopt_ok \<longrightarrow> (\<exists>px3. main_finish env closing (example_world example_ares) px2 = Inr px3)"
    by fastforce
  have "\<exists>px3. main_finish example_curl [] (example_world example_ares) px1 = Inr px3"
    using px1(3) [rule_format, of "[]" px1 example_curl "[]" "\<lambda>_. True"] example_curl_works by simp
  with px1(1,2) px(2) active show ?thesis by blast
qed




theorem never_ready_with_resolving_proxy_witness:
  "\<exists>px. main_start example_start (options_init\<lparr>curl_proxy := Some ''socks5h://127.0.0.1:1080''\<rparr>) = Inr px \<and> app_ready (px_app px) = 0"
proof -
  let ?opt = "options_init\<lparr>curl_proxy := Some ''socks5h://127.0.0.1:1080''\<rparr>"
  have "plain_options ?opt" using example_plain by (simp add: plain_options_def)
  then obtain px where px: "main_start example_start ?opt = Inr px" "px_opt px = ?opt" using example_started by blast
  have "main_options example_opt_env True [(CHR ''t'', ''socks5h://127.0.0.1:1080'')] = Inr ?opt"
    by (simp add: main_options_def options_parse_args_def options_init_def resolve_user_def resolve_group_def apply_option_def
        check_options_def MAX_TCP_CLIENTS_def log_consts Let_def DEFAULT_HTTP_VERSION_def)
  then have "reach proxy_start (proxy_step example_ares) (px, [])"
    by (intro reach_init proxy_startI [OF _ px(1)])
  moreover have "proxy_supports_name_resolution (curl_proxy (px_opt px))"
    unfolding px(2) by (simp add: proxy_supports_name_resolution_def tolower_def)
  ultimately show ?thesis using never_ready_with_resolving_proxy px(1) by blast
qed

end
